theory Spec2Isabelle
  imports Main
begin

section \<open>Values, documents and the collection\<close>

text \<open>
  The service of \<^verbatim>\<open>src/index.js\<close> handles JSON request bodies and stores BSON documents in
  one collection. Both are dynamically typed, so a value is a datatype with one constructor per
  kind of value the handlers can meet. \<open>JUndefined\<close> is what JavaScript gives for a property
  that is not there; \<open>JOid\<close> is an \<^verbatim>\<open>ObjectId\<close>, kept as its canonical hexadecimal text.
  Numbers are integers: the only arithmetic of the program is \<^verbatim>\<open>$inc\<close> by 1 and -1.
\<close>

datatype jsval =
    JUndefined
  | JNull
  | JBool bool
  | JNum int
  | JStr string
  | JArr "jsval list"
  | JObj "(string \<times> jsval) list"
  | JOid string

type_synonym jobj = "(string \<times> jsval) list"

type_synonym store = "jobj list"

text \<open>Property read \<^verbatim>\<open>o.k\<close> on an object: \<^verbatim>\<open>undefined\<close> when the property is absent.\<close>

definition get_prop :: "jobj \<Rightarrow> string \<Rightarrow> jsval" where
  "get_prop obj k = (case map_of obj k of None \<Rightarrow> JUndefined | Some v \<Rightarrow> v)"

text \<open>
  Property write \<^verbatim>\<open>o.k = v\<close>, and the store's write of one field: an existing property keeps
  its place, a new one goes last.
\<close>

primrec set_prop :: "jobj \<Rightarrow> string \<Rightarrow> jsval \<Rightarrow> jobj" where
  "set_prop [] k v = [(k, v)]"
| "set_prop (p # ps) k v = (if fst p = k then (k, v) # ps else p # set_prop ps k v)"

text \<open>
  \<^verbatim>\<open>x?.k\<close>: \<^verbatim>\<open>undefined\<close> when \<open>x\<close> is \<^verbatim>\<open>null\<close> or \<^verbatim>\<open>undefined\<close>; on any other value that is
  not an object carrying \<open>k\<close> the read gives \<^verbatim>\<open>undefined\<close> too.
\<close>

definition opt_member :: "jsval \<Rightarrow> string \<Rightarrow> jsval" where
  "opt_member x k = (case x of JObj fs \<Rightarrow> get_prop fs k | _ \<Rightarrow> JUndefined)"

text \<open>JavaScript truthiness, as \<^verbatim>\<open>!x\<close>, \<^verbatim>\<open>x ? a : b\<close> and \<^verbatim>\<open>x || y\<close> test it.\<close>

fun truthy :: "jsval \<Rightarrow> bool" where
  "truthy JUndefined = False"
| "truthy JNull = False"
| "truthy (JBool b) = b"
| "truthy (JNum n) = (n \<noteq> 0)"
| "truthy (JStr s) = (s \<noteq> [])"
| "truthy (JArr xs) = True"
| "truthy (JObj fs) = True"
| "truthy (JOid s) = True"

text \<open>
  Primitive values compare by value in JavaScript; arrays and objects compare by identity, and
  a value parsed from a request is never identical to one read from the store.
\<close>

fun is_primitive :: "jsval \<Rightarrow> bool" where
  "is_primitive (JArr xs) = False"
| "is_primitive (JObj fs) = False"
| "is_primitive (JOid s) = False"
| "is_primitive v = True"

text \<open>
  The driver writes \<^verbatim>\<open>undefined\<close> as \<^verbatim>\<open>null\<close> (its default \<^verbatim>\<open>ignoreUndefined: false\<close>), at any
  depth of a value.
\<close>

primrec bson :: "jsval \<Rightarrow> jsval" where
  "bson JUndefined = JNull"
| "bson JNull = JNull"
| "bson (JBool b) = JBool b"
| "bson (JNum n) = JNum n"
| "bson (JStr s) = JStr s"
| "bson (JArr xs) = JArr (map bson xs)"
| "bson (JObj fs) = JObj (map (map_prod id bson) fs)"
| "bson (JOid s) = JOid s"

definition bson_doc :: "jobj \<Rightarrow> jobj" where
  "bson_doc d = map (map_prod id bson) d"

subsection \<open>Queries\<close>

text \<open>
  The store's equality condition \<^verbatim>\<open>{field: q}\<close> for a plain value \<open>q\<close>: the field equals \<open>q\<close>,
  or the field is an array with an element equal to \<open>q\<close>; \<^verbatim>\<open>null\<close> also matches a missing
  field. Objects whose keys are query operators are not covered by this model.
\<close>

fun eq_match :: "jsval option \<Rightarrow> jsval \<Rightarrow> bool" where
  "eq_match None q = (q = JNull)"
| "eq_match (Some (JArr xs)) q = (JArr xs = q \<or> q \<in> set xs)"
| "eq_match (Some v) q = (v = q)"

definition id_filter :: "string \<Rightarrow> jobj \<Rightarrow> bool" where
  "id_filter oid d = eq_match (map_of d ''_id'') (JOid oid)"

text \<open>\<^verbatim>\<open>findOne(filter)\<close>: the first document that matches, \<^verbatim>\<open>null\<close> (here \<open>None\<close>) if none does.\<close>

definition findOne :: "store \<Rightarrow> (jobj \<Rightarrow> bool) \<Rightarrow> jobj option" where
  "findOne st f = List.find f st"

subsection \<open>Updates\<close>

text \<open>
  The update operators the handlers send. Each one either gives the new document or is
  rejected by the store (\<open>None\<close>): \<^verbatim>\<open>$inc\<close> needs a number or a missing field, \<^verbatim>\<open>$addToSet\<close> an
  array or a missing field, \<^verbatim>\<open>$pull\<close> an array or a missing field.
\<close>

datatype upd =
    Inc string int
  | Pull string jsval
  | AddToSet string jsval
  | SetField string jsval

fun apply_upd :: "upd \<Rightarrow> jobj \<Rightarrow> jobj option" where
  "apply_upd (Inc k n) d =
     (case map_of d k of
        None \<Rightarrow> Some (set_prop d k (JNum n))
      | Some (JNum m) \<Rightarrow> Some (set_prop d k (JNum (m + n)))
      | Some _ \<Rightarrow> None)"
| "apply_upd (Pull k v) d =
     (case map_of d k of
        None \<Rightarrow> Some d
      | Some (JArr xs) \<Rightarrow> Some (set_prop d k (JArr (removeAll (bson v) xs)))
      | Some _ \<Rightarrow> None)"
| "apply_upd (AddToSet k v) d =
     (case map_of d k of
        None \<Rightarrow> Some (set_prop d k (JArr [bson v]))
      | Some (JArr xs) \<Rightarrow>
          Some (if bson v \<in> set xs then d else set_prop d k (JArr (xs @ [bson v])))
      | Some _ \<Rightarrow> None)"
| "apply_upd (SetField k v) d = Some (set_prop d k (bson v))"

fun apply_upds :: "upd list \<Rightarrow> jobj \<Rightarrow> jobj option" where
  "apply_upds [] d = Some d"
| "apply_upds (u # us) d =
     (case apply_upd u d of None \<Rightarrow> None | Some d' \<Rightarrow> apply_upds us d')"

text \<open>
  \<^verbatim>\<open>updateOne(filter, update)\<close>: the update is applied to the first matching document, in
  place, all of it or none. The result is \<open>None\<close> when the store rejects the update (the driver
  throws), otherwise \<^verbatim>\<open>modifiedCount\<close> (1 when the document changed, 0 when nothing matched or
  nothing changed) and the new collection.
\<close>

fun updateOne :: "store \<Rightarrow> (jobj \<Rightarrow> bool) \<Rightarrow> upd list \<Rightarrow> (nat \<times> store) option" where
  "updateOne [] f us = Some (0, [])"
| "updateOne (d # ds) f us =
     (if f d then
        (case apply_upds us d of
           None \<Rightarrow> None
         | Some d' \<Rightarrow> Some (if d' = d then 0 else 1, d' # ds))
      else
        (case updateOne ds f us of
           None \<Rightarrow> None
         | Some (n, ds') \<Rightarrow> Some (n, d # ds')))"

subsection \<open>Responses\<close>

text \<open>A response is its status code and what \<^verbatim>\<open>res.send\<close> is given.\<close>

datatype payload =
    Message string
  | Inserted string jsval
  | LikeStatus string bool
  | Failure string
  | Artifacts "jobj list"
  | Artifact jobj

type_synonym response = "nat \<times> payload"

section \<open>PATCH /artifact/:id/like\<close>

text \<open>
  \<^verbatim>\<open>artifact.likedBy.includes(email)\<close> after \<^verbatim>\<open>artifact.likedBy = artifact.likedBy || []\<close>.
  A falsy \<open>likedBy\<close> is replaced by the empty array. On an array, \<^verbatim>\<open>includes\<close> compares
  primitives by value and finds no array or object. A number, \<^verbatim>\<open>true\<close> or an object has no
  callable \<^verbatim>\<open>includes\<close>: the call throws (\<open>None\<close>). A non-empty string has one, the substring
  test; whichever way it answers, the store then rejects the array operator on the string
  field, so the model keeps the substring test for a string \<open>email\<close> and answers \<open>False\<close> for
  the others.
\<close>

fun is_substring :: "string \<Rightarrow> string \<Rightarrow> bool" where
  "is_substring s [] = (s = [])"
| "is_substring s (c # cs) = (take (length s) (c # cs) = s \<or> is_substring s cs)"

fun likedBy_includes :: "jsval \<Rightarrow> jsval \<Rightarrow> bool option" where
  "likedBy_includes (JArr xs) email = Some (is_primitive email \<and> email \<in> set xs)"
| "likedBy_includes (JStr s) email =
     (if s = [] then Some False
      else Some (case email of JStr e \<Rightarrow> is_substring e s | _ \<Rightarrow> False))"
| "likedBy_includes lb email = (if truthy lb then None else Some False)"

text \<open>
  \<^verbatim>\<open>new ObjectId(id)\<close> is the driver's: it throws on a string that is not a well-formed
  identifier. The handlers take it as a parameter \<open>mk\<close>, which gives the identifier or \<open>None\<close>
  where the constructor throws.
\<close>

type_synonym oid_ctor = "string \<Rightarrow> string option"

text \<open>
  The handler awaits the store twice, so it runs in two parts. The first part
  (lines 143--171) ends with a response, or with the update it has decided on.
\<close>

datatype pending =
    Respond response
  | Decided string bool jsval

definition toggle_update :: "bool \<Rightarrow> jsval \<Rightarrow> upd list" where
  "toggle_update hasLiked email =
     (if hasLiked then [Inc ''likeCount'' (- 1), Pull ''likedBy'' email]
      else [Inc ''likeCount'' 1, AddToSet ''likedBy'' email])"

definition toggle_read :: "oid_ctor \<Rightarrow> store \<Rightarrow> string \<Rightarrow> jobj \<Rightarrow> pending" where
  "toggle_read mk st aid body =
     (let email = get_prop body ''email'' in
      if \<not> truthy email then
        Respond (400, Message ''Email is required to toggle like status'')
      else
        case mk aid of
          None \<Rightarrow> Respond (500, Failure ''Server error'')
        | Some oid \<Rightarrow>
            (case findOne st (id_filter oid) of
               None \<Rightarrow> Respond (404, Message ''Artifact not found'')
             | Some artifact \<Rightarrow>
                 (case likedBy_includes (get_prop artifact ''likedBy'') email of
                    None \<Rightarrow> Respond (500, Failure ''Server error'')
                  | Some hasLiked \<Rightarrow> Decided oid hasLiked email)))"

text \<open>The second part (lines 173--183): the update, and the response from its count.\<close>

definition toggle_write :: "store \<Rightarrow> string \<Rightarrow> bool \<Rightarrow> jsval \<Rightarrow> response \<times> store" where
  "toggle_write st oid hasLiked email =
     (case updateOne st (id_filter oid) (toggle_update hasLiked email) of
        None \<Rightarrow> ((500, Failure ''Server error''), st)
      | Some (modifiedCount, st') \<Rightarrow>
          if modifiedCount = 1 then
            ((200, LikeStatus ''Toggle like status successful'' (\<not> hasLiked)), st')
          else ((500, Message ''Failed to toggle like status''), st'))"

text \<open>One request handled with nothing else running in between.\<close>

definition like_toggle :: "oid_ctor \<Rightarrow> store \<Rightarrow> string \<Rightarrow> jobj \<Rightarrow> response \<times> store" where
  "like_toggle mk st aid body =
     (case toggle_read mk st aid body of
        Respond r \<Rightarrow> (r, st)
      | Decided oid hasLiked email \<Rightarrow> toggle_write st oid hasLiked email)"

text \<open>A sequence of toggle requests, one after the other; the responses in order.\<close>

fun like_toggles :: "oid_ctor \<Rightarrow> store \<Rightarrow> (string \<times> jobj) list \<Rightarrow> response list \<times> store" where
  "like_toggles mk st [] = ([], st)"
| "like_toggles mk st (rq # rqs) =
     (let (r, st1) = like_toggle mk st (fst rq) (snd rq);
          (rs, st2) = like_toggles mk st1 rqs
      in (r # rs, st2))"

section \<open>POST /history\<close>

text \<open>
  \<^verbatim>\<open>insertOne(doc)\<close>: the driver gives the document an \<^verbatim>\<open>_id\<close> when it has none
  (\<^verbatim>\<open>doc._id == null\<close>), a new \<^verbatim>\<open>ObjectId\<close> \<open>pk\<close>; the store refuses an array as \<^verbatim>\<open>_id\<close> and an
  \<^verbatim>\<open>_id\<close> that a stored document has (the driver throws, \<open>None\<close>). The result is the
  \<^verbatim>\<open>insertedId\<close> and the new collection.
\<close>

definition nullish :: "jsval \<Rightarrow> bool" where
  "nullish v = (v = JUndefined \<or> v = JNull)"

definition is_array :: "jsval \<Rightarrow> bool" where
  "is_array v = (case v of JArr xs \<Rightarrow> True | _ \<Rightarrow> False)"

definition insertOne :: "store \<Rightarrow> string \<Rightarrow> jobj \<Rightarrow> (jsval \<times> store) option" where
  "insertOne st pk doc =
     (let doc1 = (if nullish (get_prop doc ''_id'') then set_prop doc ''_id'' (JOid pk) else doc);
          doc2 = bson_doc doc1;
          i = get_prop doc2 ''_id''
      in if is_array i \<or> (\<exists>d \<in> set st. map_of d ''_id'' = Some i) then None
         else Some (i, st @ [doc2]))"

definition history_post :: "store \<Rightarrow> string \<Rightarrow> jobj \<Rightarrow> response \<times> store" where
  "history_post st pk artifact =
     (if \<not> truthy (opt_member (get_prop artifact ''addedBy'') ''email'') then
        ((400, Message ''User email is required to add an artifact''), st)
      else
        let artifact1 = set_prop artifact ''likedBy'' (JArr []);
            artifact2 = set_prop artifact1 ''likeCount'' (JNum 0)
        in case insertOne st pk artifact2 of
             None \<Rightarrow> ((500, Failure ''Server error''), st)
           | Some (insertedId, st') \<Rightarrow>
               if truthy insertedId then
                 ((201, Inserted ''Artifact added successfully'' insertedId), st')
               else ((400, Message ''Failed to add artifact''), st'))"

section \<open>GET /history\<close>

text \<open>
  The handler sends \<^verbatim>\<open>{name: {$regex: search, $options: "i"}}\<close>: \<open>search\<close> is a regular
  expression for the store's engine, not a plain text. The model covers the patterns made of
  ordinary characters and the dot: an ordinary character stands for itself in either case, the
  dot for any character but a line feed, and the pattern may match anywhere in the text. For a
  pattern with any other special character \<open>rx_parse\<close> gives \<open>None\<close>: the model does not
  say what the engine does with it.
\<close>

definition rx_special :: "char list" where
  "rx_special = CHR 0x5C # ''^$.|?*+()[]{}''"

datatype rx_item = RLit char | RAny

fun rx_parse :: "string \<Rightarrow> rx_item list option" where
  "rx_parse [] = Some []"
| "rx_parse (c # cs) =
     (if c = CHR ''.'' then map_option ((#) RAny) (rx_parse cs)
      else if c \<in> set rx_special then None
      else map_option ((#) (RLit c)) (rx_parse cs))"

definition lower_char :: "char \<Rightarrow> char" where
  "lower_char c =
     (let n = (of_char c :: nat) in if 65 \<le> n \<and> n \<le> 90 then char_of (n + 32) else c)"

fun rx_item_match :: "rx_item \<Rightarrow> char \<Rightarrow> bool" where
  "rx_item_match RAny x = (x \<noteq> CHR 0x0A)"
| "rx_item_match (RLit c) x = (lower_char x = lower_char c)"

fun rx_here :: "rx_item list \<Rightarrow> string \<Rightarrow> bool" where
  "rx_here [] t = True"
| "rx_here (r # rs) [] = False"
| "rx_here (r # rs) (x # xs) = (rx_item_match r x \<and> rx_here rs xs)"

fun rx_search :: "rx_item list \<Rightarrow> string \<Rightarrow> bool" where
  "rx_search rs [] = rx_here rs []"
| "rx_search rs (x # xs) = (rx_here rs (x # xs) \<or> rx_search rs xs)"

text \<open>
  \<^verbatim>\<open>$regex\<close> on a field: a string is searched; an array matches when one of its elements is a
  string that does; nothing else matches.
\<close>

fun regex_match :: "rx_item list \<Rightarrow> jsval option \<Rightarrow> bool" where
  "regex_match rs (Some (JStr n)) = rx_search rs n"
| "regex_match rs (Some (JArr xs)) =
     (\<exists>v \<in> set xs. case v of JStr n \<Rightarrow> rx_search rs n | _ \<Rightarrow> False)"
| "regex_match rs _ = False"

text \<open>
  \<open>search\<close> is the query parameter, \<open>None\<close> when the request has none. The result is \<open>None\<close>
  for a pattern outside the modelled ones.
\<close>

definition history_get :: "store \<Rightarrow> string option \<Rightarrow> response option" where
  "history_get st search =
     (case search of
        None \<Rightarrow> Some (200, Artifacts st)
      | Some s \<Rightarrow>
          if s = [] then Some (200, Artifacts st)
          else
            (case rx_parse s of
               None \<Rightarrow> None
             | Some rs \<Rightarrow>
                 Some (200, Artifacts (filter (\<lambda>d. regex_match rs (map_of d ''name'')) st))))"

section \<open>The guarded routes\<close>

text \<open>
  \<^verbatim>\<open>jwt.verify\<close> with the server's secret is the parameter \<open>jwt\<close>: the decoded claims of a
  token it accepts, \<open>None\<close> for one it rejects. \<open>verifyToken\<close> answers 401 itself or hands the
  claims on as \<^verbatim>\<open>req.user\<close>.
\<close>

type_synonym verifier = "string \<Rightarrow> jobj option"

definition verifyToken :: "verifier \<Rightarrow> string option \<Rightarrow> response + jobj" where
  "verifyToken jwt token =
     (case token of
        None \<Rightarrow> Inl (401, Message ''Unauthorized'')
      | Some t \<Rightarrow>
          if t = [] then Inl (401, Message ''Unauthorized'')
          else
            (case jwt t of
               None \<Rightarrow> Inl (401, Message ''Unauthorized'')
             | Some decoded \<Rightarrow> Inr decoded))"

text \<open>A query parameter as the value JavaScript sees: a string, or \<^verbatim>\<open>undefined\<close>.\<close>

definition query_value :: "string option \<Rightarrow> jsval" where
  "query_value q = (case q of None \<Rightarrow> JUndefined | Some s \<Rightarrow> JStr s)"

text \<open>
  \<^verbatim>\<open>{"addedBy.email": email}\<close> for a string \<open>email\<close>: \<open>addedBy\<close> is an object whose \<open>email\<close>
  matches, or an array with such an object among its elements.
\<close>

definition addedBy_email_match :: "string \<Rightarrow> jobj \<Rightarrow> bool" where
  "addedBy_email_match email d =
     (case map_of d ''addedBy'' of
        Some (JObj fs) \<Rightarrow> eq_match (map_of fs ''email'') (JStr email)
      | Some (JArr xs) \<Rightarrow>
          (\<exists>v \<in> set xs. case v of JObj fs \<Rightarrow> eq_match (map_of fs ''email'') (JStr email)
                                | _ \<Rightarrow> False)
      | _ \<Rightarrow> False)"

text \<open>
  GET /my-artifacts. \<^verbatim>\<open>req.user.email !== req.query.email\<close> compares a claim with a string or
  \<^verbatim>\<open>undefined\<close>, so it is inequality of values.
\<close>

definition my_artifacts :: "verifier \<Rightarrow> store \<Rightarrow> string option \<Rightarrow> string option \<Rightarrow> response" where
  "my_artifacts jwt st token qemail =
     (case verifyToken jwt token of
        Inl r \<Rightarrow> r
      | Inr user \<Rightarrow>
          if get_prop user ''email'' \<noteq> query_value qemail then (403, Message ''Forbidden'')
          else
            (case qemail of
               None \<Rightarrow> (400, Message ''Email is required'')
             | Some email \<Rightarrow>
                 if email = [] then (400, Message ''Email is required'')
                 else (200, Artifacts (filter (addedBy_email_match email) st))))"


section \<open>PATCH, DELETE and GET /artifact/:id\<close>

definition descriptive_fields :: "string list" where
  "descriptive_fields =
     [''name'', ''image'', ''type'', ''description'', ''createdAt'', ''discoveredAt'',
      ''discoveredBy'', ''location'']"

definition artifact_update :: "oid_ctor \<Rightarrow> store \<Rightarrow> string \<Rightarrow> jobj \<Rightarrow> response \<times> store" where
  "artifact_update mk st aid body =
     (case mk aid of
        None \<Rightarrow> ((500, Failure ''Server error''), st)
      | Some oid \<Rightarrow>
          (case updateOne st (id_filter oid)
                  (map (\<lambda>k. SetField k (get_prop body k)) descriptive_fields) of
             None \<Rightarrow> ((500, Failure ''Server error''), st)
           | Some (modifiedCount, st') \<Rightarrow>
               if modifiedCount = 1 then ((200, Message ''Artifact updated successfully''), st')
               else ((404, Message ''Artifact not found or no changes made''), st')))"

text \<open>\<^verbatim>\<open>deleteOne(filter)\<close>: the first matching document goes; the count says whether one did.\<close>

fun deleteOne :: "store \<Rightarrow> (jobj \<Rightarrow> bool) \<Rightarrow> nat \<times> store" where
  "deleteOne [] f = (0, [])"
| "deleteOne (d # ds) f =
     (if f d then (1, ds) else (let (n, ds') = deleteOne ds f in (n, d # ds')))"

definition artifact_delete :: "oid_ctor \<Rightarrow> store \<Rightarrow> string \<Rightarrow> response \<times> store" where
  "artifact_delete mk st aid =
     (case mk aid of
        None \<Rightarrow> ((500, Failure ''Server error''), st)
      | Some oid \<Rightarrow>
          (let (deletedCount, st') = deleteOne st (id_filter oid)
           in if deletedCount = 1 then ((200, Message ''Artifact deleted successfully''), st')
              else ((404, Message ''Artifact not found''), st')))"

definition artifact_get :: "oid_ctor \<Rightarrow> store \<Rightarrow> string \<Rightarrow> response" where
  "artifact_get mk st aid =
     (case mk aid of
        None \<Rightarrow> (500, Failure ''Server error'')
      | Some oid \<Rightarrow>
          (case findOne st (id_filter oid) of
             Some artifact \<Rightarrow> (200, Artifact artifact)
           | None \<Rightarrow> (404, Message ''Artifact not found'')))"

section \<open>Toggle requests in flight together\<close>

text \<open>
  The process runs one handler at a time and switches only at an \<^verbatim>\<open>await\<close>; each store
  operation is atomic on its document. So requests in flight together interleave in units of
  the two parts of the handler. An event names the request (its index in the list of
  requests) whose next part runs: \<open>Find i\<close> up to the decision, \<open>Update i\<close> from the update to
  the response. The second component of the state is what each request has reached:
  \<open>None\<close> before its first part.
\<close>

datatype event = Find nat | Update nat

fun step :: "oid_ctor \<Rightarrow> (string \<times> jobj) list \<Rightarrow> store \<times> pending option list \<Rightarrow> event
    \<Rightarrow> store \<times> pending option list" where
  "step mk rqs (st, ps) (Find i) =
     (if i < length ps \<and> i < length rqs \<and> ps ! i = None then
        (st, ps[i := Some (toggle_read mk st (fst (rqs ! i)) (snd (rqs ! i)))])
      else (st, ps))"
| "step mk rqs (st, ps) (Update i) =
     (if i < length ps then
        (case ps ! i of
           Some (Decided oid hasLiked email) \<Rightarrow>
             (let (r, st') = toggle_write st oid hasLiked email
              in (st', ps[i := Some (Respond r)]))
         | _ \<Rightarrow> (st, ps))
      else (st, ps))"

definition interleaved :: "oid_ctor \<Rightarrow> store \<Rightarrow> (string \<times> jobj) list \<Rightarrow> event list
    \<Rightarrow> store \<times> pending option list" where
  "interleaved mk st rqs evs = foldl (step mk rqs) (st, replicate (length rqs) None) evs"

text \<open>Every request has been answered.\<close>

definition all_answered :: "pending option list \<Rightarrow> bool" where
  "all_answered ps = list_all (\<lambda>p. case p of Some (Respond r) \<Rightarrow> True | _ \<Rightarrow> False) ps"

section \<open>What the properties speak of\<close>

text \<open>The artifact a path parameter names, if any.\<close>

definition lookup_artifact :: "oid_ctor \<Rightarrow> store \<Rightarrow> string \<Rightarrow> jobj option" where
  "lookup_artifact mk st aid =
     (case mk aid of None \<Rightarrow> None | Some oid \<Rightarrow> findOne st (id_filter oid))"

text \<open>
  \<open>likeCount == |likedBy|\<close>, read on the sequence the document holds (no duplicates, and as
  many entries as the count) and read on the set of its entries.
\<close>

definition count_is_length :: "jobj \<Rightarrow> bool" where
  "count_is_length d =
     (case map_of d ''likedBy'' of
        Some (JArr xs) \<Rightarrow>
          (case map_of d ''likeCount'' of
             Some (JNum n) \<Rightarrow> distinct xs \<and> n = int (length xs)
           | _ \<Rightarrow> False)
      | _ \<Rightarrow> False)"

definition count_is_card :: "jobj \<Rightarrow> bool" where
  "count_is_card d =
     (case map_of d ''likedBy'' of
        Some (JArr xs) \<Rightarrow>
          (case map_of d ''likeCount'' of
             Some (JNum n) \<Rightarrow> n = int (card (set xs))
           | _ \<Rightarrow> False)
      | _ \<Rightarrow> False)"

text \<open>A document after a step still has its count right if it had before.\<close>

definition keeps_count :: "jobj \<Rightarrow> jobj \<Rightarrow> bool" where
  "keeps_count d d' \<longleftrightarrow>
     (count_is_length d \<longrightarrow> count_is_length d') \<and> (count_is_card d \<longrightarrow> count_is_card d')"

text \<open>The entries of \<open>likedBy\<close>, as a set.\<close>

definition liked_set :: "jobj \<Rightarrow> jsval set" where
  "liked_set d = (case get_prop d ''likedBy'' of JArr xs \<Rightarrow> set xs | _ \<Rightarrow> {})"

text \<open>A text contains another, letter case aside.\<close>

definition ci_contains :: "string \<Rightarrow> string \<Rightarrow> bool" where
  "ci_contains s n = (\<exists>pre post. map lower_char n = pre @ map lower_char s @ post)"

definition name_contains :: "string \<Rightarrow> jobj \<Rightarrow> bool" where
  "name_contains s d =
     (case map_of d ''name'' of
        Some (JStr n) \<Rightarrow> ci_contains s n
      | Some (JArr xs) \<Rightarrow> (\<exists>n. JStr n \<in> set xs \<and> ci_contains s n)
      | _ \<Rightarrow> False)"

subsection \<open>Sample data\<close>

text \<open>
  The identifier constructor of the driver's current releases: exactly 24 hexadecimal digits,
  read without regard to letter case.
\<close>

definition is_hex :: "char \<Rightarrow> bool" where
  "is_hex c =
     (let n = (of_char c :: nat)
      in (48 \<le> n \<and> n \<le> 57) \<or> (97 \<le> n \<and> n \<le> 102) \<or> (65 \<le> n \<and> n \<le> 70))"

definition oid_hex24 :: oid_ctor where
  "oid_hex24 s = (if length s = 24 \<and> list_all is_hex s then Some (map lower_char s) else None)"

definition urn_id :: string where
  "urn_id = ''65a1b2c3d4e5f60718293a4b''"

definition vase_id :: string where
  "vase_id = ''65a1b2c3d4e5f60718293a4c''"

definition urn :: jobj where
  "urn = [(''_id'', JOid urn_id), (''name'', JStr ''Urn''),
          (''addedBy'', JObj [(''email'', JStr ''u@x.com'')]),
          (''likedBy'', JArr []), (''likeCount'', JNum 0)]"

definition vase :: jobj where
  "vase = [(''_id'', JOid vase_id), (''name'', JStr ''Big Vase''),
           (''addedBy'', JObj [(''email'', JStr ''a@x.com'')]),
           (''likedBy'', JArr [JStr ''u@x.com'']), (''likeCount'', JNum 1)]"

definition like_by :: "string \<Rightarrow> jobj" where
  "like_by e = [(''email'', JStr e)]"

text \<open>A verifier that accepts two tokens, one issued for \<open>b@x.com\<close> and one for \<open>u@x.com\<close>.\<close>

definition demo_jwt :: verifier where
  "demo_jwt t =
     (if t = ''tok-b'' then Some [(''email'', JStr ''b@x.com''), (''iat'', JNum 1)]
      else if t = ''tok-u'' then Some [(''email'', JStr ''u@x.com''), (''iat'', JNum 1)]
      else None)"

definition three_toggles :: "(string \<times> jobj) list" where
  "three_toggles =
     [(urn_id, like_by ''u@x.com''), (urn_id, like_by ''a@x.com''), (urn_id, like_by ''u@x.com'')]"

text \<open>The entries of \<open>likedBy\<close>, as the sequence stored; none when the field is missing.\<close>

definition liked_list :: "jobj \<Rightarrow> jsval list" where
  "liked_list d = (case map_of d ''likedBy'' of Some (JArr xs) \<Rightarrow> xs | _ \<Rightarrow> [])"

text \<open>The urn once \<open>u@x.com\<close> likes it.\<close>

definition urn_liked :: jobj where
  "urn_liked = [(''_id'', JOid urn_id), (''name'', JStr ''Urn''),
          (''addedBy'', JObj [(''email'', JStr ''u@x.com'')]),
          (''likedBy'', JArr [JStr ''u@x.com'']), (''likeCount'', JNum 1)]"

text \<open>
  The \<^verbatim>\<open>_id\<close> a request's document is stored under: its own when it brings one, else the new
  \<^verbatim>\<open>ObjectId\<close>.
\<close>

definition insert_id :: "string \<Rightarrow> jobj \<Rightarrow> jsval" where
  "insert_id pk artifact =
     (if nullish (get_prop artifact ''_id'') then JOid pk else bson (get_prop artifact ''_id''))"

definition new_id :: string where
  "new_id = ''65a1b2c3d4e5f60718293a4d''"

definition amphora_request :: jobj where
  "amphora_request =
     [(''name'', JStr ''Amphora''), (''likeCount'', JNum 7), (''likedBy'', JArr [JStr ''z@x.com'']),
      (''addedBy'', JObj [(''email'', JStr ''a@x.com'')])]"

text \<open>An artifact whose descriptive fields have all been set to \<^verbatim>\<open>null\<close>.\<close>

definition nulled :: jobj where
  "nulled = [(''_id'', JOid urn_id), (''name'', JNull), (''image'', JNull), (''type'', JNull),
             (''description'', JNull), (''createdAt'', JNull), (''discoveredAt'', JNull),
             (''discoveredBy'', JNull), (''location'', JNull),
             (''addedBy'', JObj [(''email'', JStr ''u@x.com'')]),
             (''likedBy'', JArr []), (''likeCount'', JNum 0)]"

definition rename_request :: jobj where
  "rename_request = [(''name'', JStr ''Funerary urn''), (''likeCount'', JNum 99)]"

text \<open>
  Where a request stands while the requests of different users are in flight, given the
  entries \<open>xs\<close> that \<open>likedBy\<close> has: not yet started or decided to like, and then its email is
  not in \<open>xs\<close>; or answered, and then it is.
\<close>

fun in_flight :: "jsval list \<Rightarrow> string \<Rightarrow> jsval \<Rightarrow> pending option \<Rightarrow> bool" where
  "in_flight xs oid e None = (e \<notin> set xs)"
| "in_flight xs oid e (Some (Decided oid' h e')) = (oid' = oid \<and> \<not> h \<and> e' = e \<and> e \<notin> set xs)"
| "in_flight xs oid e (Some (Respond r)) = (e \<in> set xs \<and> fst r = 200)"

text \<open>Two requests of the same user in flight together, and the order of their four parts.\<close>

definition same_user_twice :: "(string \<times> jobj) list" where
  "same_user_twice = [(urn_id, like_by ''u@x.com''), (urn_id, like_by ''u@x.com'')]"

definition both_read_first :: "event list" where
  "both_read_first = [Find 0, Find 1, Update 0, Update 1]"

text \<open>
  Request bodies are what \<^verbatim>\<open>express.json()\<close> parsed: JSON values, with no \<^verbatim>\<open>undefined\<close> and no
  \<^verbatim>\<open>ObjectId\<close> anywhere in them.
\<close>

fun json :: "jsval \<Rightarrow> bool" where
  "json JUndefined = False"
| "json (JOid s) = False"
| "json (JArr xs) = (\<forall>v \<in> set xs. json v)"
| "json (JObj fs) = (\<forall>p \<in> set fs. json (snd p))"
| "json v = True"

definition json_body :: "jobj \<Rightarrow> bool" where
  "json_body body = (\<forall>p \<in> set body. json (snd p))"



text \<open>
  A toggle request whose \<open>email\<close> is an array, sent twice, and the urn after the first and
  after the second.
\<close>

definition array_like :: jobj where
  "array_like = [(''email'', JArr [JStr ''a@x.com''])]"

definition array_like_twice :: "(string \<times> jobj) list" where
  "array_like_twice = [(urn_id, array_like), (urn_id, array_like)]"

definition urn_array_once :: jobj where
  "urn_array_once = [(''_id'', JOid urn_id), (''name'', JStr ''Urn''),
          (''addedBy'', JObj [(''email'', JStr ''u@x.com'')]),
          (''likedBy'', JArr [JArr [JStr ''a@x.com'']]), (''likeCount'', JNum 1)]"

definition urn_array_twice :: jobj where
  "urn_array_twice = [(''_id'', JOid urn_id), (''name'', JStr ''Urn''),
          (''addedBy'', JObj [(''email'', JStr ''u@x.com'')]),
          (''likedBy'', JArr [JArr [JStr ''a@x.com'']]), (''likeCount'', JNum 2)]"



definition made_urn :: jobj where
  "made_urn = [(''name'', JStr ''Urn''), (''addedBy'', JObj [(''email'', JStr ''u@x.com'')]),
               (''likedBy'', JArr []), (''likeCount'', JNum 0), (''_id'', JOid urn_id)]"







text \<open>
  The \<^verbatim>\<open>_id\<close> a JSON request asks for: its own when it brings one, else the driver's new
  \<^verbatim>\<open>ObjectId\<close>.
\<close>

definition request_id :: "string \<Rightarrow> jobj \<Rightarrow> jsval" where
  "request_id pk artifact =
     (if nullish (get_prop artifact ''_id'') then JOid pk else get_prop artifact ''_id'')"

text \<open>Creation requests that bring an \<^verbatim>\<open>_id\<close> of their own: a string, the number 0, an array.\<close>

definition keyed_request :: jobj where
  "keyed_request =
     [(''_id'', JStr ''amphora-1''), (''name'', JStr ''Amphora''),
      (''addedBy'', JObj [(''email'', JStr ''a@x.com'')])]"

definition keyed_amphora :: jobj where
  "keyed_amphora =
     [(''_id'', JStr ''amphora-1''), (''name'', JStr ''Amphora''),
      (''addedBy'', JObj [(''email'', JStr ''a@x.com'')]),
      (''likedBy'', JArr []), (''likeCount'', JNum 0)]"

definition zero_request :: jobj where
  "zero_request =
     [(''_id'', JNum 0), (''name'', JStr ''Amphora''),
      (''addedBy'', JObj [(''email'', JStr ''a@x.com'')])]"

definition zero_amphora :: jobj where
  "zero_amphora =
     [(''_id'', JNum 0), (''name'', JStr ''Amphora''),
      (''addedBy'', JObj [(''email'', JStr ''a@x.com'')]),
      (''likedBy'', JArr []), (''likeCount'', JNum 0)]"

definition array_id_request :: jobj where
  "array_id_request =
     [(''_id'', JArr [JNum 1]), (''name'', JStr ''Amphora''),
      (''addedBy'', JObj [(''email'', JStr ''a@x.com'')])]"

definition empty_email_request :: jobj where
  "empty_email_request =
     [(''name'', JStr ''Amphora''), (''addedBy'', JObj [(''email'', JStr '''')])]"

section \<open>Properties of the store operations\<close>

lemma map_of_set_prop: "map_of (set_prop d k v) = (map_of d)(k \<mapsto> v)"
  by (induction d) (auto simp: fun_eq_iff)

lemma get_prop_set_prop: "get_prop (set_prop d k v) k' = (if k' = k then v else get_prop d k')"
  by (simp add: get_prop_def map_of_set_prop)

lemma bson_primitive: "is_primitive v \<Longrightarrow> truthy v \<Longrightarrow> bson v = v"
  by (cases v) auto

lemma find_split:
  "List.find f st = Some d \<Longrightarrow> \<exists>pre post. st = pre @ d # post \<and> f d \<and> (\<forall>x \<in> set pre. \<not> f x)"
proof (induction st)
  case Nil
  then show ?case by simp
next
  case (Cons a st)
  show ?case
  proof (cases "f a")
    case True
    with Cons.prems have "a = d" by simp
    with True have "a # st = [] @ d # st \<and> f d \<and> (\<forall>x \<in> set []. \<not> f x)" by simp
    then show ?thesis by blast
  next
    case False
    with Cons.prems have "List.find f st = Some d" by simp
    from Cons.IH[OF this] obtain pre post where
      "st = pre @ d # post" "f d" "\<forall>x \<in> set pre. \<not> f x" by blast
    with False have "a # st = (a # pre) @ d # post \<and> f d \<and> (\<forall>x \<in> set (a # pre). \<not> f x)"
      by simp
    then show ?thesis by blast
  qed
qed

lemma find_append_miss: "\<forall>x \<in> set pre. \<not> f x \<Longrightarrow> List.find f (pre @ ys) = List.find f ys"
  by (induction pre) auto

lemma updateOne_split:
  "\<forall>x \<in> set pre. \<not> f x \<Longrightarrow> f d \<Longrightarrow>
   updateOne (pre @ d # post) f us =
     (case apply_upds us d of None \<Rightarrow> None
      | Some d' \<Rightarrow> Some (if d' = d then 0 else 1, pre @ d' # post))"
  by (induction pre) (auto split: option.splits)

lemma updateOne_miss: "List.find f st = None \<Longrightarrow> updateOne st f us = Some (0, st)"
  by (induction st) (auto split: if_splits)

lemma deleteOne_miss: "List.find f st = None \<Longrightarrow> deleteOne st f = (0, st)"
  by (induction st) (auto split: if_splits)

lemma deleteOne_split:
  "\<forall>x \<in> set pre. \<not> f x \<Longrightarrow> f d \<Longrightarrow> deleteOne (pre @ d # post) f = (1, pre @ post)"
  by (induction pre) auto

text \<open>The toggle on a well-typed document.\<close>

lemma includes_array:
  "map_of d ''likedBy'' = Some (JArr xs) \<Longrightarrow> is_primitive e \<Longrightarrow>
   likedBy_includes (get_prop d ''likedBy'') e = Some (e \<in> set xs)"
  by (simp add: get_prop_def)

lemma toggle_update_unlike:
  assumes "map_of d ''likedBy'' = Some (JArr xs)" "map_of d ''likeCount'' = Some (JNum n)"
    and "is_primitive e" "truthy e"
  shows "\<exists>d'. apply_upds (toggle_update True e) d = Some d' \<and> d' \<noteq> d \<and>
     map_of d' = (map_of d)(''likeCount'' \<mapsto> JNum (n - 1), ''likedBy'' \<mapsto> JArr (removeAll e xs))"
proof -
  let ?d1 = "set_prop d ''likeCount'' (JNum (n - 1))"
  let ?d2 = "set_prop ?d1 ''likedBy'' (JArr (removeAll e xs))"
  have 1: "apply_upd (Inc ''likeCount'' (- 1)) d = Some ?d1" using assms(2) by simp
  have "map_of ?d1 ''likedBy'' = Some (JArr xs)" using assms(1) by (simp add: map_of_set_prop)
  then have 2: "apply_upd (Pull ''likedBy'' e) ?d1 = Some ?d2"
    using assms(3,4) by (simp add: bson_primitive)
  have 3: "apply_upds (toggle_update True e) d = Some ?d2"
    using 1 2 by (simp add: toggle_update_def)
  have 4: "map_of ?d2 = (map_of d)(''likeCount'' \<mapsto> JNum (n - 1), ''likedBy'' \<mapsto> JArr (removeAll e xs))"
    by (simp add: map_of_set_prop)
  have "map_of ?d2 ''likeCount'' \<noteq> map_of d ''likeCount''"
    using assms(2) by (simp add: 4)
  then have "?d2 \<noteq> d" by metis
  with 3 4 show ?thesis by blast
qed

lemma toggle_update_like:
  assumes "map_of d ''likedBy'' = Some (JArr xs)" "map_of d ''likeCount'' = Some (JNum n)"
    and "is_primitive e" "truthy e" "e \<notin> set xs"
  shows "\<exists>d'. apply_upds (toggle_update False e) d = Some d' \<and> d' \<noteq> d \<and>
     map_of d' = (map_of d)(''likeCount'' \<mapsto> JNum (n + 1), ''likedBy'' \<mapsto> JArr (xs @ [e]))"
proof -
  let ?d1 = "set_prop d ''likeCount'' (JNum (n + 1))"
  let ?d2 = "set_prop ?d1 ''likedBy'' (JArr (xs @ [e]))"
  have 1: "apply_upd (Inc ''likeCount'' 1) d = Some ?d1" using assms(2) by simp
  have "map_of ?d1 ''likedBy'' = Some (JArr xs)" using assms(1) by (simp add: map_of_set_prop)
  then have 2: "apply_upd (AddToSet ''likedBy'' e) ?d1 = Some ?d2"
    using assms(3,4,5) by (simp add: bson_primitive)
  have 3: "apply_upds (toggle_update False e) d = Some ?d2"
    using 1 2 by (simp add: toggle_update_def)
  have 4: "map_of ?d2 = (map_of d)(''likeCount'' \<mapsto> JNum (n + 1), ''likedBy'' \<mapsto> JArr (xs @ [e]))"
    by (simp add: map_of_set_prop)
  have "map_of ?d2 ''likeCount'' \<noteq> map_of d ''likeCount''"
    using assms(2) by (simp add: 4)
  then have "?d2 \<noteq> d" by metis
  with 3 4 show ?thesis by blast
qed

lemma lookup_artifact_Some:
  "lookup_artifact mk st aid = Some d \<Longrightarrow>
   \<exists>oid. mk aid = Some oid \<and> findOne st (id_filter oid) = Some d"
  by (cases "mk aid") (simp_all add: lookup_artifact_def)

lemma toggle_read_found:
  assumes "get_prop body ''email'' = e" "truthy e" "mk aid = Some oid"
    "findOne st (id_filter oid) = Some d" "likedBy_includes (get_prop d ''likedBy'') e = Some h"
  shows "toggle_read mk st aid body = Decided oid h e"
  using assms by (simp add: toggle_read_def)

lemma toggle_update_prim:
  assumes t: "map_of d ''likedBy'' = Some (JArr xs)" "map_of d ''likeCount'' = Some (JNum n)"
    and e: "is_primitive e" "truthy e"
  shows "\<exists>d'. apply_upds (toggle_update (e \<in> set xs) e) d = Some d' \<and> d' \<noteq> d \<and>
     map_of d' = (map_of d)
        (''likeCount'' \<mapsto> JNum (if e \<in> set xs then n - 1 else n + 1),
         ''likedBy'' \<mapsto> JArr (if e \<in> set xs then removeAll e xs else xs @ [e]))"
proof (cases "e \<in> set xs")
  case True
  from toggle_update_unlike[OF t e] show ?thesis by (simp only: True if_True)
next
  case False
  from toggle_update_like[OF t e False] show ?thesis by (simp only: False if_False)
qed

lemma toggle_write_changed:
  assumes "\<forall>x \<in> set pre. \<not> id_filter oid x" "id_filter oid d"
    "apply_upds (toggle_update h e) d = Some d'" "d' \<noteq> d"
  shows "toggle_write (pre @ d # post) oid h e =
     ((200, LikeStatus ''Toggle like status successful'' (\<not> h)), pre @ d' # post)"
  unfolding toggle_write_def updateOne_split[OF assms(1,2)] using assms(3,4) by simp


lemma findOne_split:
  "findOne st f = Some d \<Longrightarrow> \<exists>pre post. st = pre @ d # post \<and> f d \<and> (\<forall>x \<in> set pre. \<not> f x)"
  unfolding findOne_def by (rule find_split)



lemma count_is_length_iff:
  "count_is_length d \<longleftrightarrow>
   (\<exists>xs. map_of d ''likedBy'' = Some (JArr xs) \<and> distinct xs \<and>
         map_of d ''likeCount'' = Some (JNum (int (length xs))))"
proof (cases "map_of d ''likedBy''")
  case None
  then show ?thesis by (simp add: count_is_length_def)
next
  case (Some v)
  show ?thesis
  proof (cases "map_of d ''likeCount''")
    case None
    with Some show ?thesis by (cases v) (simp_all add: count_is_length_def)
  next
    case w: (Some w)
    with Some show ?thesis by (cases v; cases w) (auto simp: count_is_length_def)
  qed
qed

lemma count_is_card_iff:
  "count_is_card d \<longleftrightarrow>
   (\<exists>xs. map_of d ''likedBy'' = Some (JArr xs) \<and>
         map_of d ''likeCount'' = Some (JNum (int (card (set xs)))))"
proof (cases "map_of d ''likedBy''")
  case None
  then show ?thesis by (simp add: count_is_card_def)
next
  case (Some v)
  show ?thesis
  proof (cases "map_of d ''likeCount''")
    case None
    with Some show ?thesis by (cases v) (simp_all add: count_is_card_def)
  next
    case w: (Some w)
    with Some show ?thesis by (cases v; cases w) (auto simp: count_is_card_def)
  qed
qed

lemma toggled_list_length:
  assumes "distinct xs"
  shows "distinct (if e \<in> set xs then removeAll e xs else xs @ [e]) \<and>
     (if e \<in> set xs then int (length xs) - 1 else int (length xs) + 1) =
       int (length (if e \<in> set xs then removeAll e xs else xs @ [e]))"
proof (cases "e \<in> set xs")
  case True
  then have "int (length xs - 1) = int (length xs) - 1" by (cases xs) auto
  moreover have "removeAll e xs = remove1 e xs"
    using assms by (simp add: distinct_remove1_removeAll)
  ultimately show ?thesis using True assms by (simp add: length_remove1)
next
  case False
  with assms show ?thesis by simp
qed

lemma toggled_list_card:
  "(if e \<in> set xs then int (card (set xs)) - 1 else int (card (set xs)) + 1) =
       int (card (set (if e \<in> set xs then removeAll e xs else xs @ [e])))"
proof (cases "e \<in> set xs")
  case True
  then have "card (set xs) > 0" by (auto simp: card_gt_0_iff)
  moreover have "card (set xs - {e}) = card (set xs) - 1" using True by simp
  ultimately show ?thesis using True by simp
next
  case False
  then show ?thesis by simp
qed

lemma toggle_doc_length:
  assumes inc: "likedBy_includes (get_prop d ''likedBy'') e = Some h"
    and up: "apply_upds (toggle_update h e) d = Some d'"
    and e: "truthy e" "is_primitive e"
    and inv: "count_is_length d"
  shows "count_is_length d'"
proof -
  from inv obtain xs where xs: "map_of d ''likedBy'' = Some (JArr xs)" "distinct xs"
    "map_of d ''likeCount'' = Some (JNum (int (length xs)))"
    unfolding count_is_length_iff by (elim exE conjE)
  have "likedBy_includes (get_prop d ''likedBy'') e = Some (e \<in> set xs)"
    using xs(1) e(2) by (rule includes_array)
  with inc have h: "h = (e \<in> set xs)" by simp
  from toggle_update_prim[OF xs(1,3) e(2,1)] obtain d1 where
    d1: "apply_upds (toggle_update (e \<in> set xs) e) d = Some d1" and
    m: "map_of d1 = (map_of d)
        (''likeCount'' \<mapsto> JNum (if e \<in> set xs then int (length xs) - 1 else int (length xs) + 1),
         ''likedBy'' \<mapsto> JArr (if e \<in> set xs then removeAll e xs else xs @ [e]))"
    by (elim exE conjE)
  from up d1 h have eq: "d' = d1" by simp
  let ?ys = "if e \<in> set xs then removeAll e xs else xs @ [e]"
  have "map_of d' ''likedBy'' = Some (JArr ?ys)" unfolding eq m by simp
  moreover have "map_of d' ''likeCount'' = Some (JNum (int (length ?ys)))"
    unfolding eq m using toggled_list_length[OF xs(2), of e] by simp
  moreover have "distinct ?ys" using toggled_list_length[OF xs(2), of e] by simp
  ultimately show ?thesis unfolding count_is_length_iff by (intro exI[of _ ?ys] conjI)
qed

lemma toggle_doc_card:
  assumes inc: "likedBy_includes (get_prop d ''likedBy'') e = Some h"
    and up: "apply_upds (toggle_update h e) d = Some d'"
    and e: "truthy e" "is_primitive e"
    and inv: "count_is_card d"
  shows "count_is_card d'"
proof -
  from inv obtain xs where xs: "map_of d ''likedBy'' = Some (JArr xs)"
    "map_of d ''likeCount'' = Some (JNum (int (card (set xs))))"
    unfolding count_is_card_iff by (elim exE conjE)
  have "likedBy_includes (get_prop d ''likedBy'') e = Some (e \<in> set xs)"
    using xs(1) e(2) by (rule includes_array)
  with inc have h: "h = (e \<in> set xs)" by simp
  from toggle_update_prim[OF xs(1,2) e(2,1)] obtain d1 where
    d1: "apply_upds (toggle_update (e \<in> set xs) e) d = Some d1" and
    m: "map_of d1 = (map_of d)
        (''likeCount'' \<mapsto> JNum (if e \<in> set xs then int (card (set xs)) - 1 else int (card (set xs)) + 1),
         ''likedBy'' \<mapsto> JArr (if e \<in> set xs then removeAll e xs else xs @ [e]))"
    by (elim exE conjE)
  from up d1 h have eq: "d' = d1" by simp
  let ?ys = "if e \<in> set xs then removeAll e xs else xs @ [e]"
  have "map_of d' ''likedBy'' = Some (JArr ?ys)" unfolding eq m by simp
  moreover have "map_of d' ''likeCount'' = Some (JNum (int (card (set ?ys))))"
    unfolding eq m using toggled_list_card[of e xs] by simp
  ultimately show ?thesis unfolding count_is_card_iff by (intro exI[of _ ?ys] conjI)
qed

lemma toggle_read_Decided:
  assumes "toggle_read mk st aid body = Decided oid h e"
  shows "e = get_prop body ''email'' \<and> truthy e \<and> mk aid = Some oid \<and>
     (\<exists>d. findOne st (id_filter oid) = Some d \<and>
          likedBy_includes (get_prop d ''likedBy'') e = Some h)"
  using assms by (auto simp: toggle_read_def Let_def split: if_splits option.splits)

lemma toggle_write_effect:
  assumes "findOne st (id_filter oid) = Some d" "toggle_write st oid h e = (r, st')"
  shows "st' = st \<or>
    (\<exists>pre post d'. st = pre @ d # post \<and> st' = pre @ d' # post \<and>
        apply_upds (toggle_update h e) d = Some d')"
proof -
  from findOne_split[OF assms(1)] obtain pre post where
    sp: "st = pre @ d # post" "id_filter oid d" "\<forall>x \<in> set pre. \<not> id_filter oid x"
    by (elim exE conjE)
  show ?thesis
  proof (cases "apply_upds (toggle_update h e) d")
    case None
    then have "updateOne st (id_filter oid) (toggle_update h e) = None"
      unfolding sp(1) updateOne_split[OF sp(3,2)] by simp
    with assms(2) show ?thesis by (simp add: toggle_write_def)
  next
    case (Some d')
    then have "updateOne st (id_filter oid) (toggle_update h e) =
        Some (if d' = d then 0 else 1, pre @ d' # post)"
      unfolding sp(1) updateOne_split[OF sp(3,2)] by simp
    with assms(2) have "st' = pre @ d' # post"
      by (auto simp: toggle_write_def split: if_splits)
    with sp(1) Some have "st = pre @ d # post \<and> st' = pre @ d' # post \<and>
        apply_upds (toggle_update h e) d = Some d'" by simp
    then show ?thesis by (intro disjI2 exI)
  qed
qed

lemma like_toggle_effect:
  assumes "like_toggle mk st aid body = (r, st')"
  shows "st' = st \<or>
    (\<exists>pre d post d' h. st = pre @ d # post \<and> st' = pre @ d' # post \<and>
        truthy (get_prop body ''email'') \<and>
        likedBy_includes (get_prop d ''likedBy'') (get_prop body ''email'') = Some h \<and>
        apply_upds (toggle_update h (get_prop body ''email'')) d = Some d')"
proof (cases "toggle_read mk st aid body")
  case (Respond r')
  with assms show ?thesis by (simp add: like_toggle_def)
next
  case (Decided oid h e)
  from toggle_read_Decided[OF Decided] obtain d where
    e: "e = get_prop body ''email''" "truthy e" and
    d: "findOne st (id_filter oid) = Some d" "likedBy_includes (get_prop d ''likedBy'') e = Some h"
    by (elim exE conjE)
  from assms Decided have w: "toggle_write st oid h e = (r, st')"
    by (simp add: like_toggle_def)
  from toggle_write_effect[OF d(1) w] show ?thesis
  proof
    assume "st' = st"
    then show ?thesis by simp
  next
    assume "\<exists>pre post d'. st = pre @ d # post \<and> st' = pre @ d' # post \<and>
        apply_upds (toggle_update h e) d = Some d'"
    then obtain pre post d' where "st = pre @ d # post" "st' = pre @ d' # post"
        "apply_upds (toggle_update h e) d = Some d'"
      by (elim exE conjE)
    with e d(2) have "st = pre @ d # post \<and> st' = pre @ d' # post \<and>
        truthy (get_prop body ''email'') \<and>
        likedBy_includes (get_prop d ''likedBy'') (get_prop body ''email'') = Some h \<and>
        apply_upds (toggle_update h (get_prop body ''email'')) d = Some d'" by simp
    then show ?thesis by (intro disjI2 exI)
  qed
qed

lemma keeps_count_refl: "list_all2 keeps_count st st"
  by (simp add: list_all2_refl keeps_count_def)

lemma keeps_count_trans:
  assumes "list_all2 keeps_count a b" "list_all2 keeps_count b c"
  shows "list_all2 keeps_count a c"
proof (rule list_all2_trans[OF _ assms])
  fix x y z
  assume "keeps_count x y" "keeps_count y z"
  then show "keeps_count x z" by (simp add: keeps_count_def)
qed

lemma like_toggle_keeps:
  assumes "like_toggle mk st aid body = (r, st')" "is_primitive (get_prop body ''email'')"
  shows "list_all2 keeps_count st st'"
  using like_toggle_effect[OF assms(1)]
proof
  assume "st' = st"
  then show ?thesis by (simp add: keeps_count_refl)
next
  assume "\<exists>pre d post d' h. st = pre @ d # post \<and> st' = pre @ d' # post \<and>
        truthy (get_prop body ''email'') \<and>
        likedBy_includes (get_prop d ''likedBy'') (get_prop body ''email'') = Some h \<and>
        apply_upds (toggle_update h (get_prop body ''email'')) d = Some d'"
  then obtain pre d post d' h where sp: "st = pre @ d # post" "st' = pre @ d' # post" and
    t: "truthy (get_prop body ''email'')"
       "likedBy_includes (get_prop d ''likedBy'') (get_prop body ''email'') = Some h"
       "apply_upds (toggle_update h (get_prop body ''email'')) d = Some d'"
    by (elim exE conjE)
  have "keeps_count d d'"
    unfolding keeps_count_def
    using toggle_doc_length[OF t(2,3,1) assms(2)] toggle_doc_card[OF t(2,3,1) assms(2)]
    by simp
  then have "list_all2 keeps_count (d # post) (d' # post)"
    by (simp add: keeps_count_refl)
  then show ?thesis unfolding sp
    by (intro list_all2_appendI keeps_count_refl)
qed

lemma like_toggles_keep:
  assumes "\<forall>rq \<in> set rqs. is_primitive (get_prop (snd rq) ''email'')"
  shows "list_all2 keeps_count st (snd (like_toggles mk st rqs))"
  using assms
proof (induction rqs arbitrary: st)
  case Nil
  show ?case by (simp add: keeps_count_refl)
next
  case (Cons rq rqs)
  obtain r st1 where s1: "like_toggle mk st (fst rq) (snd rq) = (r, st1)"
    by (cases "like_toggle mk st (fst rq) (snd rq)")
  from Cons.prems have p: "is_primitive (get_prop (snd rq) ''email'')"
    and ps: "\<forall>x \<in> set rqs. is_primitive (get_prop (snd x) ''email'')" by simp_all
  have a: "list_all2 keeps_count st st1" using s1 p by (rule like_toggle_keeps)
  have b: "list_all2 keeps_count st1 (snd (like_toggles mk st1 rqs))"
    using ps by (rule Cons.IH)
  have "snd (like_toggles mk st (rq # rqs)) = snd (like_toggles mk st1 rqs)"
    using s1 by (simp add: split_beta)
  with keeps_count_trans[OF a b] show ?case by simp
qed

section \<open>The count and the set of likes\<close>

lemma three_toggles_run:
  "like_toggles oid_hex24 [urn] three_toggles =
     ([(200, LikeStatus ''Toggle like status successful'' True),
       (200, LikeStatus ''Toggle like status successful'' True),
       (200, LikeStatus ''Toggle like status successful'' False)],
      [[(''_id'', JOid urn_id), (''name'', JStr ''Urn''),
        (''addedBy'', JObj [(''email'', JStr ''u@x.com'')]),
        (''likedBy'', JArr [JStr ''a@x.com'']), (''likeCount'', JNum 1)]])"
  by code_simp

text \<open>
  Toggle requests handled one after the other, each with a string (or any other primitive
  value) as \<open>email\<close>, keep \<open>likeCount == |likedBy|\<close> in every document that had it before: the
  document at each place of the collection stays there, and if its count was the length of
  its duplicate-free \<open>likedBy\<close> it still is, and if its count was the number of different
  entries of \<open>likedBy\<close> it still is. Requests that are refused change nothing.
\<close>

lemma primitive_emails_keep_count:
  assumes "\<forall>rq \<in> set rqs. is_primitive (get_prop (snd rq) ''email'')"
  shows "length (snd (like_toggles mk st rqs)) = length st \<and>
    (\<forall>k < length st.
       (count_is_length (st ! k) \<longrightarrow> count_is_length (snd (like_toggles mk st rqs) ! k)) \<and>
       (count_is_card (st ! k) \<longrightarrow> count_is_card (snd (like_toggles mk st rqs) ! k)))"
  using like_toggles_keep[OF assms, of st mk]
  by (simp add: list_all2_conv_all_nth keeps_count_def)

lemma three_toggles_keep_count:
  "list_all (\<lambda>rq. is_primitive (get_prop (snd rq) ''email'')) three_toggles \<and>
   count_is_length ([urn] ! 0) \<and> count_is_card ([urn] ! 0) \<and>
   map fst (fst (like_toggles oid_hex24 [urn] three_toggles)) = [200, 200, 200] \<and>
   count_is_length (snd (like_toggles oid_hex24 [urn] three_toggles) ! 0) \<and>
   count_is_card (snd (like_toggles oid_hex24 [urn] three_toggles) ! 0)"
proof -
  have h: "\<forall>rq \<in> set three_toggles. is_primitive (get_prop (snd rq) ''email'')"
    by (simp add: three_toggles_def like_by_def get_prop_def)
  have u: "count_is_length ([urn] ! 0)" "count_is_card ([urn] ! 0)"
    by (simp_all add: urn_def count_is_length_def count_is_card_def)
  have r: "map fst (fst (like_toggles oid_hex24 [urn] three_toggles)) = [200, 200, 200]"
    by (simp add: three_toggles_run)
  from primitive_emails_keep_count[OF h, of oid_hex24 "[urn]"] u h r show ?thesis
    by (simp add: list_all_iff)
qed

section \<open>One toggle, step by step\<close>

lemma toggle_update_missing:
  assumes "map_of d ''likedBy'' = None" "map_of d ''likeCount'' = Some (JNum n)"
    and "is_primitive e" "truthy e"
  shows "apply_upds (toggle_update False e) d =
     Some (set_prop (set_prop d ''likeCount'' (JNum (n + 1))) ''likedBy'' (JArr [e]))"
proof -
  let ?d1 = "set_prop d ''likeCount'' (JNum (n + 1))"
  have 1: "apply_upd (Inc ''likeCount'' 1) d = Some ?d1" using assms(2) by simp
  have "map_of ?d1 ''likedBy'' = None" using assms(1) by (simp add: map_of_set_prop)
  then have 2: "apply_upd (AddToSet ''likedBy'' e) ?d1 = Some (set_prop ?d1 ''likedBy'' (JArr [e]))"
    using assms(3,4) by (simp add: bson_primitive)
  show ?thesis using 1 2 by (simp add: toggle_update_def)
qed

lemma toggle_update_rejected:
  assumes "map_of d ''likedBy'' = Some v" "\<not> is_array v" "map_of d ''likeCount'' = Some (JNum n)"
  shows "apply_upds (toggle_update h e) d = None"
proof -
  have a: "map_of (set_prop d ''likeCount'' (JNum m)) ''likedBy'' = Some v" for m
    using assms(1) by (simp add: map_of_set_prop)
  show ?thesis
    using assms(2,3) a by (cases v; cases h) (simp_all add: toggle_update_def is_array_def)
qed

lemma includes_missing:
  "map_of d ''likedBy'' = None \<Longrightarrow> likedBy_includes (get_prop d ''likedBy'') e = Some False"
  by (simp add: get_prop_def)

lemma toggle_doc_step:
  assumes inc: "likedBy_includes (get_prop d ''likedBy'') e = Some h"
    and up: "apply_upds (toggle_update h e) d = Some d1"
    and e: "truthy e" "is_primitive e"
    and n: "map_of d ''likeCount'' = Some (JNum n)"
  shows "h = (e \<in> set (liked_list d)) \<and>
    map_of d1 = (map_of d)
      (''likeCount'' \<mapsto> JNum (if h then n - 1 else n + 1),
       ''likedBy'' \<mapsto> JArr (if h then removeAll e (liked_list d) else liked_list d @ [e]))"
proof (cases "map_of d ''likedBy''")
  case None
  have h: "h = False" using includes_missing[OF None, of e] inc by simp
  have l: "liked_list d = []" using None by (simp add: liked_list_def)
  have "d1 = set_prop (set_prop d ''likeCount'' (JNum (n + 1))) ''likedBy'' (JArr [e])"
    using toggle_update_missing[OF None n e(2,1)] up h by simp
  then show ?thesis using h l by (simp add: map_of_set_prop)
next
  case (Some v)
  show ?thesis
  proof (cases "is_array v")
    case False
    from toggle_update_rejected[OF Some False n, of h e] up show ?thesis by simp
  next
    case True
    then obtain xs where v: "v = JArr xs" by (cases v) (simp_all add: is_array_def)
    have m: "map_of d ''likedBy'' = Some (JArr xs)" using Some v by simp
    have l: "liked_list d = xs" using m by (simp add: liked_list_def)
    have "likedBy_includes (get_prop d ''likedBy'') e = Some (e \<in> set xs)"
      using m e(2) by (rule includes_array)
    with inc have h: "h = (e \<in> set xs)" by simp
    from toggle_update_prim[OF m n e(2,1)] obtain d' where
      d': "apply_upds (toggle_update (e \<in> set xs) e) d = Some d'" and
      mm: "map_of d' = (map_of d)
        (''likeCount'' \<mapsto> JNum (if e \<in> set xs then n - 1 else n + 1),
         ''likedBy'' \<mapsto> JArr (if e \<in> set xs then removeAll e xs else xs @ [e]))"
      by (elim exE conjE)
    from up d' h have "d1 = d'" by simp
    then show ?thesis unfolding l using h mm by simp
  qed
qed

lemma toggle_write_200:
  assumes "findOne st (id_filter oid) = Some d" "toggle_write st oid h e = ((200, p), st')"
  shows "\<exists>pre post d'. st = pre @ d # post \<and> id_filter oid d \<and>
        (\<forall>x \<in> set pre. \<not> id_filter oid x) \<and> st' = pre @ d' # post \<and>
        apply_upds (toggle_update h e) d = Some d' \<and>
        p = LikeStatus ''Toggle like status successful'' (\<not> h)"
proof -
  from findOne_split[OF assms(1)] obtain pre post where
    sp: "st = pre @ d # post" "id_filter oid d" "\<forall>x \<in> set pre. \<not> id_filter oid x"
    by (elim exE conjE)
  show ?thesis
  proof (cases "apply_upds (toggle_update h e) d")
    case None
    then have "updateOne st (id_filter oid) (toggle_update h e) = None"
      unfolding sp(1) updateOne_split[OF sp(3,2)] by simp
    with assms(2) show ?thesis by (simp add: toggle_write_def)
  next
    case (Some d')
    then have "updateOne st (id_filter oid) (toggle_update h e) =
        Some (if d' = d then 0 else 1, pre @ d' # post)"
      unfolding sp(1) updateOne_split[OF sp(3,2)] by simp
    with assms(2) have "st' = pre @ d' # post \<and>
        p = LikeStatus ''Toggle like status successful'' (\<not> h)"
      by (auto simp: toggle_write_def split: if_splits)
    with sp Some show ?thesis
      by (intro exI[of _ pre] exI[of _ post] exI[of _ d']) simp
  qed
qed

lemma like_toggle_200:
  assumes "like_toggle mk st aid body = ((200, p), st')"
  shows "\<exists>oid pre d post d' h. mk aid = Some oid \<and> st = pre @ d # post \<and> id_filter oid d \<and>
        (\<forall>x \<in> set pre. \<not> id_filter oid x) \<and> st' = pre @ d' # post \<and>
        truthy (get_prop body ''email'') \<and>
        likedBy_includes (get_prop d ''likedBy'') (get_prop body ''email'') = Some h \<and>
        apply_upds (toggle_update h (get_prop body ''email'')) d = Some d' \<and>
        p = LikeStatus ''Toggle like status successful'' (\<not> h)"
proof (cases "toggle_read mk st aid body")
  case (Respond r')
  with assms have "r' = (200, p)" by (simp add: like_toggle_def)
  with Respond show ?thesis
    by (auto simp: toggle_read_def Let_def split: if_splits option.splits)
next
  case (Decided oid h e)
  from toggle_read_Decided[OF Decided] obtain d where
    e: "e = get_prop body ''email''" "truthy e" "mk aid = Some oid" and
    d: "findOne st (id_filter oid) = Some d" "likedBy_includes (get_prop d ''likedBy'') e = Some h"
    by (elim exE conjE)
  from assms Decided have w: "toggle_write st oid h e = ((200, p), st')"
    by (simp add: like_toggle_def)
  from toggle_write_200[OF d(1) w] obtain pre post d' where
    "st = pre @ d # post" "id_filter oid d" "\<forall>x \<in> set pre. \<not> id_filter oid x"
    "st' = pre @ d' # post" "apply_upds (toggle_update h e) d = Some d'"
    "p = LikeStatus ''Toggle like status successful'' (\<not> h)"
    by (elim exE conjE)
  with e d(2) show ?thesis
    by (intro exI[of _ oid] exI[of _ pre] exI[of _ d] exI[of _ post] exI[of _ d'] exI[of _ h])
       simp
qed

section \<open>Toggling twice\<close>

lemma first_match_unique:
  assumes "pre @ d # post = pre' @ d' # post'"
    and "\<forall>x \<in> set pre. \<not> f x" "f d" "\<forall>x \<in> set pre'. \<not> f x" "f d'"
  shows "pre = pre' \<and> d = d' \<and> post = post'"
  using assms
proof (induction pre arbitrary: pre')
  case Nil
  then show ?case by (cases pre') auto
next
  case (Cons a pre)
  show ?case
  proof (cases pre')
    case Nil
    with Cons.prems show ?thesis by auto
  next
    case (Cons b pre'')
    with Cons.prems have "pre @ d # post = pre'' @ d' # post'" "a = b"
      "\<forall>x \<in> set pre. \<not> f x" "\<forall>x \<in> set pre''. \<not> f x" by auto
    with Cons.IH[of pre''] Cons.prems(3,5) Cons show ?thesis by auto
  qed
qed

lemma findOne_at: "\<forall>x \<in> set pre. \<not> f x \<Longrightarrow> f d \<Longrightarrow> findOne (pre @ d # post) f = Some d"
  by (simp add: findOne_def find_append_miss)

lemma liked_set_list: "liked_set d = set (liked_list d)"
proof (cases "map_of d ''likedBy''")
  case None
  then show ?thesis by (simp add: liked_set_def liked_list_def get_prop_def)
next
  case (Some v)
  then show ?thesis by (cases v) (simp_all add: liked_set_def liked_list_def get_prop_def)
qed

lemma id_filter_cong: "map_of d' ''_id'' = map_of d ''_id'' \<Longrightarrow> id_filter oid d' = id_filter oid d"
  by (simp add: id_filter_def)

lemma toggled_twice_list:
  "set (if e \<in> set (if e \<in> set L then removeAll e L else L @ [e])
        then removeAll e (if e \<in> set L then removeAll e L else L @ [e])
        else (if e \<in> set L then removeAll e L else L @ [e]) @ [e]) = set L"
  by auto

text \<open>
  Two toggle requests for the same artifact with the same \<open>email\<close>, a string or any other
  primitive value, handled one after the other with nothing in between and both answered
  200, on an artifact whose \<open>likeCount\<close> is a number: the second answer's \<open>liked\<close> is the
  negation of the first's, and afterwards the artifact has its first \<open>likeCount\<close>, the same
  set of entries in \<open>likedBy\<close> (so \<open>email\<close> is in it if and only if it was), and every other
  field as it was.
\<close>

lemma primitive_toggle_twice_restores:
  assumes prim: "is_primitive (get_prop body ''email'')"
    and t1: "like_toggle mk st aid body = ((200, p1), st1)"
    and t2: "like_toggle mk st1 aid body = ((200, p2), st2)"
    and d: "lookup_artifact mk st aid = Some d"
    and n: "map_of d ''likeCount'' = Some (JNum n)"
  shows "\<exists>b d2. p1 = LikeStatus ''Toggle like status successful'' b \<and>
      p2 = LikeStatus ''Toggle like status successful'' (\<not> b) \<and>
      lookup_artifact mk st2 aid = Some d2 \<and>
      map_of d2 ''likeCount'' = Some (JNum n) \<and>
      liked_set d2 = liked_set d \<and>
      (get_prop body ''email'' \<in> liked_set d2 \<longleftrightarrow> get_prop body ''email'' \<in> liked_set d) \<and>
      (\<forall>k. k \<noteq> ''likedBy'' \<longrightarrow> map_of d2 k = map_of d k)"
proof -
  let ?e = "get_prop body ''email''"
  let ?L = "liked_list d"
  from like_toggle_200[OF t1] obtain oid pre d0 post d1 h1 where
    oid: "mk aid = Some oid" and sp: "st = pre @ d0 # post" "id_filter oid d0"
      "\<forall>x \<in> set pre. \<not> id_filter oid x" and st1: "st1 = pre @ d1 # post" and
    e: "truthy ?e" and i1: "likedBy_includes (get_prop d0 ''likedBy'') ?e = Some h1" and
    u1: "apply_upds (toggle_update h1 ?e) d0 = Some d1" and
    p1: "p1 = LikeStatus ''Toggle like status successful'' (\<not> h1)"
    by (elim exE conjE)
  have "lookup_artifact mk st aid = Some d0"
    unfolding lookup_artifact_def sp(1) using oid findOne_at[OF sp(3,2)] by simp
  with d have d0: "d0 = d" by simp
  from toggle_doc_step[OF i1[unfolded d0] u1[unfolded d0] e prim n] have
    h1: "h1 = (?e \<in> set ?L)" and
    m1: "map_of d1 = (map_of d)
      (''likeCount'' \<mapsto> JNum (if h1 then n - 1 else n + 1),
       ''likedBy'' \<mapsto> JArr (if h1 then removeAll ?e ?L else ?L @ [?e]))"
    by simp_all
  have f1: "id_filter oid d1"
    using sp(2) d0 id_filter_cong[of d1 d oid] m1 by simp
  from like_toggle_200[OF t2] obtain oid' pre' d1' post' d2 h2 where
    oid': "mk aid = Some oid'" and sp': "st1 = pre' @ d1' # post'" "id_filter oid' d1'"
      "\<forall>x \<in> set pre'. \<not> id_filter oid' x" and st2: "st2 = pre' @ d2 # post'" and
    i2: "likedBy_includes (get_prop d1' ''likedBy'') ?e = Some h2" and
    u2: "apply_upds (toggle_update h2 ?e) d1' = Some d2" and
    p2: "p2 = LikeStatus ''Toggle like status successful'' (\<not> h2)"
    by (elim exE conjE)
  from oid oid' have o: "oid' = oid" by simp
  from first_match_unique[OF sp'(1)[unfolded st1] sp(3) f1 sp'(3,2)[unfolded o]]
  have same: "pre' = pre" "d1' = d1" "post' = post" by simp_all
  have n1: "map_of d1 ''likeCount'' = Some (JNum (if h1 then n - 1 else n + 1))"
    unfolding m1 by simp
  have L1: "liked_list d1 = (if h1 then removeAll ?e ?L else ?L @ [?e])"
    unfolding liked_list_def m1 by simp
  from toggle_doc_step[OF i2[unfolded same] u2[unfolded same] e prim n1] have
    h2: "h2 = (?e \<in> set (liked_list d1))" and
    m2: "map_of d2 = (map_of d1)
      (''likeCount'' \<mapsto> JNum (if h2 then (if h1 then n - 1 else n + 1) - 1
                                else (if h1 then n - 1 else n + 1) + 1),
       ''likedBy'' \<mapsto> JArr (if h2 then removeAll ?e (liked_list d1) else liked_list d1 @ [?e]))"
    by simp_all
  have h21: "h2 = (\<not> h1)" unfolding h2 L1 using h1 by simp
  have c2: "map_of d2 ''likeCount'' = Some (JNum n)" unfolding m2 using h21 by simp
  have L2: "liked_list d2 = (if h2 then removeAll ?e (liked_list d1) else liked_list d1 @ [?e])"
    unfolding liked_list_def m2 by simp
  have s2: "set (liked_list d2) = set ?L"
    unfolding L2 h2 L1 h1 by (rule toggled_twice_list)
  have others: "\<forall>k. k \<noteq> ''likedBy'' \<longrightarrow> map_of d2 k = map_of d k"
    unfolding m2 m1 using h21 n by simp
  have f2: "id_filter oid d2"
    using f1 id_filter_cong[of d2 d1 oid] m2 by simp
  have look: "lookup_artifact mk st2 aid = Some d2"
    unfolding lookup_artifact_def st2 same using oid findOne_at[OF sp(3) f2] by simp
  have ls: "liked_set d2 = liked_set d" using s2 by (simp add: liked_set_list)
  show ?thesis
    using p1 p2 h21 look c2 ls others
    by (intro exI[of _ "\<not> h1"] exI[of _ d2]) simp
qed

lemma urn_toggle_twice_restores:
  "is_primitive (get_prop (like_by ''u@x.com'') ''email'') \<and>
   like_toggle oid_hex24 [vase, urn] urn_id (like_by ''u@x.com'') =
     ((200, LikeStatus ''Toggle like status successful'' True), [vase, urn_liked]) \<and>
   like_toggle oid_hex24 [vase, urn_liked] urn_id (like_by ''u@x.com'') =
     ((200, LikeStatus ''Toggle like status successful'' False), [vase, urn]) \<and>
   lookup_artifact oid_hex24 [vase, urn] urn_id = Some urn \<and>
   map_of urn ''likeCount'' = Some (JNum 0) \<and>
   (\<exists>b d2. LikeStatus ''Toggle like status successful'' True =
              LikeStatus ''Toggle like status successful'' b \<and>
      LikeStatus ''Toggle like status successful'' False =
              LikeStatus ''Toggle like status successful'' (\<not> b) \<and>
      lookup_artifact oid_hex24 [vase, urn] urn_id = Some d2 \<and>
      map_of d2 ''likeCount'' = Some (JNum 0) \<and>
      liked_set d2 = liked_set urn \<and>
      (get_prop (like_by ''u@x.com'') ''email'' \<in> liked_set d2 \<longleftrightarrow>
       get_prop (like_by ''u@x.com'') ''email'' \<in> liked_set urn) \<and>
      (\<forall>k. k \<noteq> ''likedBy'' \<longrightarrow> map_of d2 k = map_of urn k))"
proof -
  have p: "is_primitive (get_prop (like_by ''u@x.com'') ''email'')"
    by (simp add: like_by_def get_prop_def)
  have a: "like_toggle oid_hex24 [vase, urn] urn_id (like_by ''u@x.com'') =
     ((200, LikeStatus ''Toggle like status successful'' True), [vase, urn_liked])"
    by code_simp
  have b: "like_toggle oid_hex24 [vase, urn_liked] urn_id (like_by ''u@x.com'') =
     ((200, LikeStatus ''Toggle like status successful'' False), [vase, urn])"
    by code_simp
  have c: "lookup_artifact oid_hex24 [vase, urn] urn_id = Some urn"
    by code_simp
  have e: "map_of urn ''likeCount'' = Some (JNum 0)"
    by (simp add: urn_def)
  note r = primitive_toggle_twice_restores[OF p a b c e]
  show ?thesis by (intro conjI p a b c e r)
qed

section \<open>The outcomes of a toggle\<close>

lemma like_toggle_400:
  "\<not> truthy (get_prop body ''email'') \<Longrightarrow>
   like_toggle mk st aid body =
     ((400, Message ''Email is required to toggle like status''), st)"
  by (simp add: like_toggle_def toggle_read_def)


lemma like_toggle_500:
  assumes "truthy (get_prop body ''email'')" "mk aid = None"
  shows "like_toggle mk st aid body = ((500, Failure ''Server error''), st)"
  using assms by (simp add: like_toggle_def toggle_read_def)

section \<open>Creating an artifact\<close>

lemma map_of_bson_doc: "map_of (bson_doc d) k = map_option bson (map_of d k)"
  by (induction d) (auto simp: bson_doc_def)

lemma get_prop_bson_doc:
  "get_prop (bson_doc d) k = (case map_of d k of None \<Rightarrow> JUndefined | Some v \<Rightarrow> bson v)"
  by (simp add: get_prop_def map_of_bson_doc split: option.split)

lemma bson_not_undefined: "bson v \<noteq> JUndefined"
  by (cases v) simp_all

lemma insertOne_id:
  "get_prop (bson_doc (if nullish (get_prop doc ''_id'') then set_prop doc ''_id'' (JOid pk) else doc))
     ''_id'' = insert_id pk doc"
proof (cases "nullish (get_prop doc ''_id'')")
  case True
  then show ?thesis by (simp add: insert_id_def get_prop_bson_doc map_of_set_prop)
next
  case False
  then obtain v where "map_of doc ''_id'' = Some v"
    by (cases "map_of doc ''_id''") (simp_all add: nullish_def get_prop_def)
  with False show ?thesis by (simp add: insert_id_def get_prop_def map_of_bson_doc)
qed

lemma insertOne_ok:
  assumes "\<not> is_array (insert_id pk doc)" "\<forall>d \<in> set st. map_of d ''_id'' \<noteq> Some (insert_id pk doc)"
  shows "insertOne st pk doc =
     Some (insert_id pk doc,
       st @ [bson_doc (if nullish (get_prop doc ''_id'') then set_prop doc ''_id'' (JOid pk) else doc)])"
  using assms unfolding insertOne_def Let_def insertOne_id by auto

lemma insert_id_set_prop:
  "k \<noteq> ''_id'' \<Longrightarrow> insert_id pk (set_prop d k v) = insert_id pk d"
  by (simp add: insert_id_def get_prop_set_prop)

section \<open>Updating an artifact\<close>

lemma apply_upds_set_fields:
  "\<exists>d'. apply_upds (map (\<lambda>k. SetField k (f k)) ks) d = Some d' \<and>
        (\<forall>k. map_of d' k = (if k \<in> set ks then Some (bson (f k)) else map_of d k))"
proof (induction ks arbitrary: d)
  case Nil
  show ?case by simp
next
  case (Cons a ks)
  let ?d1 = "set_prop d a (bson (f a))"
  from Cons.IH[of ?d1] obtain d' where
    d': "apply_upds (map (\<lambda>k. SetField k (f k)) ks) ?d1 = Some d'"
    "\<forall>k. map_of d' k = (if k \<in> set ks then Some (bson (f k)) else map_of ?d1 k)"
    by (elim exE conjE)
  have "apply_upds (map (\<lambda>k. SetField k (f k)) (a # ks)) d = Some d'"
    using d'(1) by simp
  moreover have "\<forall>k. map_of d' k = (if k \<in> set (a # ks) then Some (bson (f k)) else map_of d k)"
    using d'(2) by (simp add: map_of_set_prop)
  ultimately show ?case by (intro exI[of _ d'] conjI)
qed

lemma lookup_artifact_None:
  "lookup_artifact mk st aid = None \<longleftrightarrow>
     mk aid = None \<or> (\<exists>oid. mk aid = Some oid \<and> findOne st (id_filter oid) = None)"
  by (cases "mk aid") (simp_all add: lookup_artifact_def)

lemma artifact_update_miss:
  assumes "lookup_artifact mk st aid = None"
  shows "snd (artifact_update mk st aid body) = st"
proof (cases "mk aid")
  case None
  then show ?thesis by (simp add: artifact_update_def)
next
  case (Some oid)
  with assms have "findOne st (id_filter oid) = None" by (simp add: lookup_artifact_def)
  then have "updateOne st (id_filter oid) us = Some (0, st)" for us
    unfolding findOne_def by (rule updateOne_miss)
  with Some show ?thesis by (simp add: artifact_update_def)
qed

lemma artifact_update_found:
  assumes "lookup_artifact mk st aid = Some d"
  shows "\<exists>pre post d'. st = pre @ d # post \<and>
      artifact_update mk st aid body =
        (if d' = d then (404, Message ''Artifact not found or no changes made'')
         else (200, Message ''Artifact updated successfully''), pre @ d' # post) \<and>
      (\<forall>k. map_of d' k =
           (if k \<in> set descriptive_fields then Some (bson (get_prop body k)) else map_of d k))"
proof -
  from lookup_artifact_Some[OF assms] obtain oid where
    oid: "mk aid = Some oid" and f: "findOne st (id_filter oid) = Some d"
    by (elim exE conjE)
  from findOne_split[OF f] obtain pre post where sp: "st = pre @ d # post" "id_filter oid d"
    "\<forall>x \<in> set pre. \<not> id_filter oid x"
    by (elim exE conjE)
  let ?us = "map (\<lambda>k. SetField k (get_prop body k)) descriptive_fields"
  from apply_upds_set_fields[of "get_prop body" descriptive_fields d] obtain d' where
    d': "apply_upds ?us d = Some d'"
    "\<forall>k. map_of d' k =
       (if k \<in> set descriptive_fields then Some (bson (get_prop body k)) else map_of d k)"
    by (elim exE conjE)
  have "updateOne st (id_filter oid) ?us = Some (if d' = d then 0 else 1, pre @ d' # post)"
    unfolding sp(1) updateOne_split[OF sp(3,2)] using d'(1) by simp
  then have "artifact_update mk st aid body =
        (if d' = d then (404, Message ''Artifact not found or no changes made'')
         else (200, Message ''Artifact updated successfully''), pre @ d' # post)"
    using oid by (simp add: artifact_update_def)
  with sp(1) d'(2) show ?thesis by (intro exI[of _ pre] exI[of _ post] exI[of _ d'] conjI)
qed

section \<open>Malformed identifiers\<close>

lemma toggle_write_status:
  "fst (fst (toggle_write st oid h e)) = 200 \<or> fst (fst (toggle_write st oid h e)) = 500"
  by (auto simp: toggle_write_def split: option.splits)

lemma like_toggle_404_only:
  assumes "fst (fst (like_toggle mk st aid body)) = 404"
  shows "mk aid \<noteq> None \<and> lookup_artifact mk st aid = None"
proof (cases "toggle_read mk st aid body")
  case (Respond r)
  with assms have "fst r = 404" by (simp add: like_toggle_def)
  with Respond show ?thesis
    by (auto simp: toggle_read_def Let_def lookup_artifact_def split: if_splits option.splits)
next
  case (Decided oid h e)
  with assms have "fst (fst (toggle_write st oid h e)) = 404" by (simp add: like_toggle_def)
  with toggle_write_status[of st oid h e] show ?thesis by simp
qed

lemma deleteOne_count:
  "fst (deleteOne st f) = (if List.find f st = None then 0 else 1)"
  by (induction st) (auto simp: split_beta)

lemma artifact_delete_404_only:
  assumes "fst (fst (artifact_delete mk st aid)) = 404"
  shows "mk aid \<noteq> None \<and> lookup_artifact mk st aid = None"
proof (cases "mk aid")
  case None
  with assms show ?thesis by (simp add: artifact_delete_def)
next
  case (Some oid)
  with assms have "fst (deleteOne st (id_filter oid)) \<noteq> 1"
    by (auto simp: artifact_delete_def split_beta split: if_splits)
  then have "List.find (id_filter oid) st = None"
    by (simp add: deleteOne_count split: if_splits)
  with Some show ?thesis by (simp add: lookup_artifact_def findOne_def)
qed

lemma artifact_get_404_only:
  assumes "fst (artifact_get mk st aid) = 404"
  shows "mk aid \<noteq> None \<and> lookup_artifact mk st aid = None"
  using assms
  by (cases "mk aid") (auto simp: artifact_get_def lookup_artifact_def split: option.splits)

lemma artifact_update_404_only:
  assumes "fst (fst (artifact_update mk st aid body)) = 404"
  shows "mk aid \<noteq> None \<and>
     (lookup_artifact mk st aid = None \<or>
      (\<exists>d. lookup_artifact mk st aid = Some d \<and> snd (artifact_update mk st aid body) = st))"
proof (intro conjI)
  show "mk aid \<noteq> None"
    using assms by (cases "mk aid") (auto simp: artifact_update_def)
  show "lookup_artifact mk st aid = None \<or>
      (\<exists>d. lookup_artifact mk st aid = Some d \<and> snd (artifact_update mk st aid body) = st)"
  proof (cases "lookup_artifact mk st aid")
    case None
    then show ?thesis by simp
  next
    case (Some d)
    from artifact_update_found[OF Some, of body] obtain pre post d' where
      r: "st = pre @ d # post"
      "artifact_update mk st aid body =
        (if d' = d then (404, Message ''Artifact not found or no changes made'')
         else (200, Message ''Artifact updated successfully''), pre @ d' # post)"
      by (elim exE conjE)
    from assms r(2) have "d' = d" by (simp split: if_splits)
    with r have "snd (artifact_update mk st aid body) = st" by simp
    with Some show ?thesis by simp
  qed
qed

text \<open>
  Claim C10, as amended. On an id for which the identifier constructor throws, update, delete
  and get answer 500, and so does the like toggle when the body's \<open>email\<close> is truthy; with a
  missing or falsy \<open>email\<close> the toggle answers 400, which it decides before it builds the
  identifier. None of them changes a document. An answer 404 comes only for a well-formed
  identifier: from toggle, delete and get only when no document has it, from update only when
  no document has it or the document that has it is left as it was, the collection unchanged.
\<close>

theorem malformed_id_outcomes:
  "(mk aid = None \<longrightarrow>
      artifact_update mk st aid body = ((500, Failure ''Server error''), st) \<and>
      artifact_delete mk st aid = ((500, Failure ''Server error''), st) \<and>
      artifact_get mk st aid = (500, Failure ''Server error'') \<and>
      like_toggle mk st aid body =
        (if truthy (get_prop body ''email'') then (500, Failure ''Server error'')
         else (400, Message ''Email is required to toggle like status''), st)) \<and>
   (fst (fst (like_toggle mk st aid body)) = 404 \<longrightarrow>
      mk aid \<noteq> None \<and> lookup_artifact mk st aid = None) \<and>
   (fst (fst (artifact_delete mk st aid)) = 404 \<longrightarrow>
      mk aid \<noteq> None \<and> lookup_artifact mk st aid = None) \<and>
   (fst (artifact_get mk st aid) = 404 \<longrightarrow>
      mk aid \<noteq> None \<and> lookup_artifact mk st aid = None) \<and>
   (fst (fst (artifact_update mk st aid body)) = 404 \<longrightarrow>
      mk aid \<noteq> None \<and>
      (lookup_artifact mk st aid = None \<or>
       (\<exists>d. lookup_artifact mk st aid = Some d \<and> snd (artifact_update mk st aid body) = st)))"
proof (intro conjI impI)
  assume m: "mk aid = None"
  show "artifact_update mk st aid body = ((500, Failure ''Server error''), st)"
    using m by (simp add: artifact_update_def)
  show "artifact_delete mk st aid = ((500, Failure ''Server error''), st)"
    using m by (simp add: artifact_delete_def)
  show "artifact_get mk st aid = (500, Failure ''Server error'')"
    using m by (simp add: artifact_get_def)
  show "like_toggle mk st aid body =
        (if truthy (get_prop body ''email'') then (500, Failure ''Server error'')
         else (400, Message ''Email is required to toggle like status''), st)"
    using m by (simp add: like_toggle_500 like_toggle_400)
next
  assume "fst (fst (like_toggle mk st aid body)) = 404"
  from like_toggle_404_only[OF this]
  show "mk aid \<noteq> None" "lookup_artifact mk st aid = None" by simp_all
next
  assume "fst (fst (artifact_delete mk st aid)) = 404"
  from artifact_delete_404_only[OF this]
  show "mk aid \<noteq> None" "lookup_artifact mk st aid = None" by simp_all
next
  assume "fst (artifact_get mk st aid) = 404"
  from artifact_get_404_only[OF this]
  show "mk aid \<noteq> None" "lookup_artifact mk st aid = None" by simp_all
next
  assume "fst (fst (artifact_update mk st aid body)) = 404"
  from artifact_update_404_only[OF this]
  show "mk aid \<noteq> None"
    "lookup_artifact mk st aid = None \<or>
       (\<exists>d. lookup_artifact mk st aid = Some d \<and> snd (artifact_update mk st aid body) = st)"
    by simp_all
qed

theorem malformed_id_outcomes_witness:
  "oid_hex24 ''xyz'' = None \<and>
   artifact_update oid_hex24 [urn] ''xyz'' (like_by ''u@x.com'') =
     ((500, Failure ''Server error''), [urn]) \<and>
   artifact_delete oid_hex24 [urn] ''xyz'' = ((500, Failure ''Server error''), [urn]) \<and>
   artifact_get oid_hex24 [urn] ''xyz'' = (500, Failure ''Server error'') \<and>
   like_toggle oid_hex24 [urn] ''xyz'' (like_by ''u@x.com'') =
     ((500, Failure ''Server error''), [urn]) \<and>
   fst (fst (like_toggle oid_hex24 [urn] vase_id (like_by ''u@x.com''))) = 404 \<and>
   fst (fst (artifact_delete oid_hex24 [urn] vase_id)) = 404 \<and>
   fst (artifact_get oid_hex24 [urn] vase_id) = 404 \<and>
   fst (fst (artifact_update oid_hex24 [urn] vase_id (like_by ''u@x.com''))) = 404 \<and>
   oid_hex24 vase_id \<noteq> None \<and> lookup_artifact oid_hex24 [urn] vase_id = None \<and>
   fst (fst (artifact_update oid_hex24 [nulled] urn_id [])) = 404 \<and>
   oid_hex24 urn_id \<noteq> None \<and>
   lookup_artifact oid_hex24 [nulled] urn_id = Some nulled \<and>
   snd (artifact_update oid_hex24 [nulled] urn_id []) = [nulled]"
proof -
  have h: "oid_hex24 ''xyz'' = None" by code_simp
  have u: "fst (fst (artifact_update oid_hex24 [nulled] urn_id [])) = 404" by code_simp
  have l: "lookup_artifact oid_hex24 [nulled] urn_id = Some nulled" by code_simp
  note w = malformed_id_outcomes[where mk=oid_hex24 and aid=urn_id and st="[nulled]"
      and body="[]", THEN conjunct2, THEN conjunct2, THEN conjunct2, THEN conjunct2,
      rule_format, OF u]
  from w l have w2: "snd (artifact_update oid_hex24 [nulled] urn_id []) = [nulled]" by simp
  have t: "truthy (get_prop (like_by ''u@x.com'') ''email'')"
    by (simp add: like_by_def get_prop_def)
  have a: "fst (fst (like_toggle oid_hex24 [urn] vase_id (like_by ''u@x.com''))) = 404"
    by code_simp
  have b: "fst (fst (artifact_delete oid_hex24 [urn] vase_id)) = 404" by code_simp
  have c: "fst (artifact_get oid_hex24 [urn] vase_id) = 404" by code_simp
  have d: "fst (fst (artifact_update oid_hex24 [urn] vase_id (like_by ''u@x.com''))) = 404"
    by code_simp
  note r = malformed_id_outcomes[where mk=oid_hex24 and aid="''xyz''" and st="[urn]"
      and body="like_by ''u@x.com''", THEN conjunct1, rule_format, OF h]
  note s = malformed_id_outcomes[where mk=oid_hex24 and aid=vase_id and st="[urn]"
      and body="like_by ''u@x.com''", THEN conjunct2, THEN conjunct1, rule_format, OF a]
  from r t have r4: "like_toggle oid_hex24 [urn] ''xyz'' (like_by ''u@x.com'') =
     ((500, Failure ''Server error''), [urn])" by simp
  show ?thesis
    by (intro conjI h r[THEN conjunct1] r[THEN conjunct2, THEN conjunct1]
        r[THEN conjunct2, THEN conjunct2, THEN conjunct1] r4 a b c d
        s[THEN conjunct1] s[THEN conjunct2] u w[THEN conjunct1] l w2)
qed

text \<open>
  The claim C10 as written promises 500 for every toggle request with a malformed id, and 404
  only where no document matches. A toggle request with a malformed id and no \<open>email\<close> is
  answered 400; an update that changes nothing in the document it finds is answered 404.
\<close>

theorem malformed_id_counterexample:
  "oid_hex24 ''xyz'' = None \<and>
   like_toggle oid_hex24 [urn] ''xyz'' [] =
     ((400, Message ''Email is required to toggle like status''), [urn]) \<and>
   lookup_artifact oid_hex24 [nulled] urn_id = Some nulled \<and>
   artifact_update oid_hex24 [nulled] urn_id [] =
     ((404, Message ''Artifact not found or no changes made''), [nulled])"
  by code_simp

section \<open>The artifacts a user added\<close>

lemma verifyToken_401:
  "verifyToken jwt token = Inl r \<Longrightarrow> r = (401, Message ''Unauthorized'')"
  by (auto simp: verifyToken_def split: option.splits if_splits)

lemma verifyToken_no_credential:
  "token = None \<or> token = Some [] \<or> (\<exists>t. token = Some t \<and> jwt t = None) \<Longrightarrow>
   verifyToken jwt token = Inl (401, Message ''Unauthorized'')"
  by (auto simp: verifyToken_def)

lemma my_artifacts_401:
  "verifyToken jwt token = Inl r \<Longrightarrow> my_artifacts jwt st token qemail = (401, Message ''Unauthorized'')"
  by (simp add: my_artifacts_def verifyToken_401)

lemma my_artifacts_403:
  "verifyToken jwt token = Inr user \<Longrightarrow> get_prop user ''email'' \<noteq> query_value qemail \<Longrightarrow>
   my_artifacts jwt st token qemail = (403, Message ''Forbidden'')"
  by (simp add: my_artifacts_def)

lemma my_artifacts_200:
  "verifyToken jwt token = Inr user \<Longrightarrow> get_prop user ''email'' = JStr e \<Longrightarrow> e \<noteq> [] \<Longrightarrow>
   my_artifacts jwt st token (Some e) = (200, Artifacts (filter (addedBy_email_match e) st))"
  by (simp add: my_artifacts_def query_value_def)

lemma addedBy_email_match_string:
  assumes "map_of d ''addedBy'' = Some (JObj fs)" "map_of fs ''email'' = Some (JStr x)"
  shows "addedBy_email_match e d \<longleftrightarrow> x = e"
  using assms by (simp add: addedBy_email_match_def)

lemma my_artifacts_400:
  "my_artifacts jwt st token qemail = (400, p) \<Longrightarrow>
   \<exists>user. verifyToken jwt token = Inr user \<and> get_prop user ''email'' = query_value qemail \<and>
     (qemail = None \<or> qemail = Some [])"
  by (auto simp: my_artifacts_def split: sum.splits if_splits option.splits dest: verifyToken_401)

text \<open>
  Claim C6 promises 400 for a valid credential with no \<open>email\<close> query parameter. The handler
  has that answer, but tests the identity first: a credential with an email never equals a
  missing parameter, so the request is answered 403. The 400 is reached only when credential
  and parameter are both without an email, or both the empty string. The other three answers
  of the claim are as it says: 401 without a valid credential, 403 on a mismatch, and 200 with
  the artifacts whose \<open>addedBy.email\<close> matches (for an \<open>addedBy\<close> object with a string as
  \<open>email\<close>, those where it is that email), in the lemmas above.
\<close>

theorem my_artifacts_missing_email:
  "verifyToken demo_jwt (Some ''tok-b'') = Inr [(''email'', JStr ''b@x.com''), (''iat'', JNum 1)] \<and>
   my_artifacts demo_jwt [urn, vase] (Some ''tok-b'') None = (403, Message ''Forbidden'')"
  by (simp add: verifyToken_def demo_jwt_def my_artifacts_def get_prop_def query_value_def)

section \<open>Searching by name\<close>

lemma rx_parse_plain:
  "set s \<inter> set rx_special = {} \<Longrightarrow> rx_parse s = Some (map RLit s)"
proof (induction s)
  case Nil
  show ?case by simp
next
  case (Cons c s)
  then have c: "c \<notin> set rx_special" and s: "set s \<inter> set rx_special = {}" by auto
  have "CHR ''.'' \<in> set rx_special" by (simp add: rx_special_def)
  with c have "c \<noteq> CHR ''.''" by auto
  with c Cons.IH[OF s] show ?case by simp
qed

lemma rx_here_plain:
  "rx_here (map RLit s) t \<longleftrightarrow> (\<exists>post. map lower_char t = map lower_char s @ post)"
proof (induction s arbitrary: t)
  case Nil
  show ?case by simp
next
  case (Cons c s)
  show ?case
  proof (cases t)
    case Nil
    then show ?thesis by simp
  next
    case (Cons x xs)
    with Cons.IH[of xs] show ?thesis by auto
  qed
qed

lemma rx_search_split:
  "rx_search rs t \<longleftrightarrow> (\<exists>pre post. t = pre @ post \<and> rx_here rs post)"
proof (induction t)
  case Nil
  show ?case by simp
next
  case (Cons x xs)
  show ?case
  proof
    assume "rx_search rs (x # xs)"
    then consider "rx_here rs (x # xs)" | "rx_search rs xs" by auto
    then show "\<exists>pre post. x # xs = pre @ post \<and> rx_here rs post"
    proof cases
      case 1
      then have "x # xs = [] @ (x # xs) \<and> rx_here rs (x # xs)" by simp
      then show ?thesis by (intro exI)
    next
      case 2
      with Cons.IH obtain pre post where "xs = pre @ post" "rx_here rs post" by auto
      then have "x # xs = (x # pre) @ post \<and> rx_here rs post" by simp
      then show ?thesis by (intro exI)
    qed
  next
    assume "\<exists>pre post. x # xs = pre @ post \<and> rx_here rs post"
    then obtain pre post where p: "x # xs = pre @ post" "rx_here rs post" by auto
    show "rx_search rs (x # xs)"
    proof (cases pre)
      case Nil
      with p have "rx_here rs (x # xs)" by simp
      then show ?thesis by simp
    next
      case (Cons y ys)
      with p have "xs = ys @ post" by simp
      with p(2) Cons.IH show ?thesis by auto
    qed
  qed
qed

lemma rx_search_plain: "rx_search (map RLit s) n \<longleftrightarrow> ci_contains s n"
proof
  assume "rx_search (map RLit s) n"
  then obtain pre post where "n = pre @ post" "rx_here (map RLit s) post"
    unfolding rx_search_split by auto
  then obtain post' where "map lower_char post = map lower_char s @ post'"
    unfolding rx_here_plain by auto
  with \<open>n = pre @ post\<close> have "map lower_char n = map lower_char pre @ map lower_char s @ post'"
    by simp
  then show "ci_contains s n" unfolding ci_contains_def by (intro exI)
next
  assume "ci_contains s n"
  then obtain a b where ab: "map lower_char n = a @ map lower_char s @ b"
    unfolding ci_contains_def by auto
  then obtain pre post where pp: "n = pre @ post" "a = map lower_char pre"
    "map lower_char s @ b = map lower_char post"
    unfolding map_eq_append_conv by auto
  have "rx_here (map RLit s) post"
    unfolding rx_here_plain using pp(3)[symmetric] by (intro exI)
  with pp(1) show "rx_search (map RLit s) n" unfolding rx_search_split by auto
qed

lemma regex_match_plain:
  "regex_match (map RLit s) (map_of d ''name'') \<longleftrightarrow> name_contains s d"
proof (cases "map_of d ''name''")
  case None
  then show ?thesis by (simp add: name_contains_def)
next
  case (Some v)
  show ?thesis
  proof (cases v)
    case (JArr xs)
    have "(\<exists>v \<in> set xs. case v of JStr n \<Rightarrow> rx_search (map RLit s) n | _ \<Rightarrow> False) \<longleftrightarrow>
        (\<exists>n. JStr n \<in> set xs \<and> ci_contains s n)"
    proof
      assume "\<exists>v \<in> set xs. case v of JStr n \<Rightarrow> rx_search (map RLit s) n | _ \<Rightarrow> False"
      then obtain v where v: "v \<in> set xs"
        "case v of JStr n \<Rightarrow> rx_search (map RLit s) n | _ \<Rightarrow> False" by auto
      show "\<exists>n. JStr n \<in> set xs \<and> ci_contains s n"
      proof (cases v)
        case (JStr n)
        with v have "JStr n \<in> set xs \<and> ci_contains s n" by (simp add: rx_search_plain)
        then show ?thesis by (intro exI)
      qed (use v in simp_all)
    next
      assume "\<exists>n. JStr n \<in> set xs \<and> ci_contains s n"
      then obtain n where "JStr n \<in> set xs" "ci_contains s n" by auto
      then show "\<exists>v \<in> set xs. case v of JStr n \<Rightarrow> rx_search (map RLit s) n | _ \<Rightarrow> False"
        by (intro bexI[of _ "JStr n"]) (simp_all add: rx_search_plain)
    qed
    with Some JArr show ?thesis by (simp add: name_contains_def)
  qed (simp_all add: Some name_contains_def rx_search_plain)
qed

lemma is_substring_iff: "is_substring s t \<longleftrightarrow> (\<exists>pre post. t = pre @ s @ post)"
proof (induction t)
  case Nil
  show ?case by auto
next
  case (Cons c cs)
  have p: "take (length s) (c # cs) = s \<longleftrightarrow> (\<exists>post. c # cs = s @ post)"
    by (metis append_eq_conv_conj append_take_drop_id)
  show ?case
  proof
    assume "is_substring s (c # cs)"
    then consider "take (length s) (c # cs) = s" | "is_substring s cs" by auto
    then show "\<exists>pre post. c # cs = pre @ s @ post"
    proof cases
      case 1
      with p obtain post where "c # cs = [] @ s @ post" by auto
      then show ?thesis by (intro exI)
    next
      case 2
      with Cons.IH obtain pre post where "cs = pre @ s @ post" by auto
      then have "c # cs = (c # pre) @ s @ post" by simp
      then show ?thesis by (intro exI)
    qed
  next
    assume "\<exists>pre post. c # cs = pre @ s @ post"
    then obtain pre post where pp: "c # cs = pre @ s @ post" by auto
    show "is_substring s (c # cs)"
    proof (cases pre)
      case Nil
      with pp have "c # cs = s @ post" by simp
      with p have "take (length s) (c # cs) = s" by blast
      then show ?thesis by simp
    next
      case (Cons y ys)
      with pp have "cs = ys @ s @ post" by simp
      with Cons.IH show ?thesis by auto
    qed
  qed
qed

lemma ci_contains_code: "ci_contains s n \<longleftrightarrow> is_substring (map lower_char s) (map lower_char n)"
  by (simp add: ci_contains_def is_substring_iff)

text \<open>
  Claim C7, as amended. With no \<open>search\<close> parameter, or an empty one, the listing is the whole
  collection. With a non-empty \<open>search\<close> that has none of the special characters of regular
  expressions, the listing is made of the artifacts whose \<open>name\<close> is a text that contains
  \<open>search\<close>, letter case aside (or an array with such a text among its elements), all of them
  and no other, in the collection's order.
\<close>

theorem search_outcomes:
  "history_get st None = Some (200, Artifacts st) \<and>
   history_get st (Some []) = Some (200, Artifacts st) \<and>
   (s \<noteq> [] \<and> set s \<inter> set rx_special = {} \<longrightarrow>
      history_get st (Some s) = Some (200, Artifacts (filter (name_contains s) st)))"
proof (intro conjI impI)
  show "history_get st None = Some (200, Artifacts st)" by (simp add: history_get_def)
  show "history_get st (Some []) = Some (200, Artifacts st)" by (simp add: history_get_def)
next
  assume a: "s \<noteq> [] \<and> set s \<inter> set rx_special = {}"
  then have "rx_parse s = Some (map RLit s)" by (simp add: rx_parse_plain)
  with a show "history_get st (Some s) = Some (200, Artifacts (filter (name_contains s) st))"
    by (simp add: history_get_def regex_match_plain)
qed

theorem search_outcomes_witness:
  "''vAs'' \<noteq> [] \<and> set ''vAs'' \<inter> set rx_special = {} \<and>
   history_get [urn, vase] (Some ''vAs'') = Some (200, Artifacts (filter (name_contains ''vAs'') [urn, vase])) \<and>
   filter (name_contains ''vAs'') [urn, vase] = [vase] \<and>
   history_get [urn, vase] None = Some (200, Artifacts [urn, vase])"
proof -
  have h: "''vAs'' \<noteq> [] \<and> set ''vAs'' \<inter> set rx_special = {}"
    by (simp add: rx_special_def)
  note r = search_outcomes[where s="''vAs''" and st="[urn, vase]"]
  have b: "\<not> is_substring (map lower_char ''vAs'') (map lower_char ''Urn'')" by code_simp
  have c: "is_substring (map lower_char ''vAs'') (map lower_char ''Big Vase'')" by code_simp
  have f: "filter (name_contains ''vAs'') [urn, vase] = [vase]"
    using b c by (simp add: name_contains_def urn_def vase_def ci_contains_code)
  show ?thesis
    by (intro conjI h[THEN conjunct1] h[THEN conjunct2]
        r[THEN conjunct2, THEN conjunct2, rule_format, OF h] f r[THEN conjunct1])
qed

text \<open>
  The claim C7 as written takes \<open>search\<close> for a plain text. The handler gives it to the store
  as a regular expression: for the search \<open>.\<close> it lists the urn and the vase, and neither name
  contains a dot.
\<close>

theorem search_counterexample:
  "history_get [urn, vase] (Some ''.'') = Some (200, Artifacts [urn, vase]) \<and>
   \<not> name_contains ''.'' urn \<and> \<not> name_contains ''.'' vase"
proof -
  have a: "history_get [urn, vase] (Some ''.'') = Some (200, Artifacts [urn, vase])"
    by code_simp
  have b: "\<not> is_substring (map lower_char ''.'') (map lower_char ''Urn'')" by code_simp
  have c: "\<not> is_substring (map lower_char ''.'') (map lower_char ''Big Vase'')" by code_simp
  have "\<not> name_contains ''.'' urn" using b by (simp add: name_contains_def urn_def ci_contains_code)
  moreover have "\<not> name_contains ''.'' vase"
    using c by (simp add: name_contains_def vase_def ci_contains_code)
  ultimately show ?thesis using a by simp
qed

section \<open>Requests in flight together\<close>

text \<open>One request alone, its two parts in order, is the request handled without interruption.\<close>

lemma interleaved_single:
  "fst (interleaved mk st [(aid, body)] [Find 0, Update 0]) = snd (like_toggle mk st aid body)"
  by (cases "toggle_read mk st aid body")
    (simp_all add: interleaved_def like_toggle_def split_beta)

text \<open>
  Requests of different users for one artifact that nobody likes yet, in any order of their
  parts: when all are answered, every one of them is in \<open>likedBy\<close>, once, and \<open>likeCount\<close> is
  their number. The store applies \<^verbatim>\<open>$inc\<close> and \<^verbatim>\<open>$addToSet\<close> to the document as it is at that
  moment, so no update is lost.
\<close>

lemma distinct_users_step:
  assumes es: "distinct es" "\<forall>e \<in> set es. truthy e \<and> is_primitive e"
    and oid: "mk aid = Some oid"
    and pre: "\<forall>x \<in> set pre. \<not> id_filter oid x"
    and inv: "id_filter oid d" "map_of d ''likedBy'' = Some (JArr xs)"
      "map_of d ''likeCount'' = Some (JNum (int (length xs)))"
      "distinct xs" "set xs \<subseteq> set es" "list_all2 (in_flight xs oid) es ps"
  shows "\<exists>d' xs' ps'.
      step mk (map (\<lambda>e. (aid, [(''email'', e)])) es) (pre @ d # post, ps) ev =
        (pre @ d' # post, ps') \<and>
      id_filter oid d' \<and> map_of d' ''likedBy'' = Some (JArr xs') \<and>
      map_of d' ''likeCount'' = Some (JNum (int (length xs'))) \<and>
      distinct xs' \<and> set xs' \<subseteq> set es \<and> list_all2 (in_flight xs' oid) es ps'"
proof -
  let ?rqs = "map (\<lambda>e. (aid, [(''email'', e)])) es"
  let ?st = "pre @ d # post"
  have len: "length ps = length es" using inv(6) by (simp add: list_all2_lengthD)
  have same: "step mk ?rqs (?st, ps) ev = (?st, ps) \<Longrightarrow> ?thesis"
    using inv by (intro exI[of _ d] exI[of _ xs] exI[of _ ps]) simp
  show ?thesis
  proof (cases ev)
    case (Find i)
    show ?thesis
    proof (cases "i < length ps \<and> ps ! i = None")
      case False
      then have "step mk ?rqs (?st, ps) ev = (?st, ps)" using Find by auto
      then show ?thesis by (rule same)
    next
      case True
      then have i: "i < length es" and n: "ps ! i = None" using len by simp_all
      let ?e = "es ! i"
      have e: "truthy ?e" "is_primitive ?e" using es(2) i by simp_all
      have "in_flight xs oid ?e (ps ! i)" using inv(6) i by (simp add: list_all2_conv_all_nth)
      then have notin: "?e \<notin> set xs" using n by simp
      have rq: "?rqs ! i = (aid, [(''email'', ?e)])" using i by simp
      have "likedBy_includes (get_prop d ''likedBy'') ?e = Some (?e \<in> set xs)"
        using inv(2) e(2) by (rule includes_array)
      then have inc: "likedBy_includes (get_prop d ''likedBy'') ?e = Some False"
        using notin by simp
      have g: "get_prop [(''email'', ?e)] ''email'' = ?e" by (simp add: get_prop_def)
      have rd: "toggle_read mk ?st aid [(''email'', ?e)] = Decided oid False ?e"
        using g e(1) oid findOne_at[OF pre inv(1)] inc by (rule toggle_read_found)
      let ?ps = "ps[i := Some (Decided oid False ?e)]"
      have st: "step mk ?rqs (?st, ps) ev = (?st, ?ps)"
        using Find True i rq rd by simp
      have "list_all2 (in_flight xs oid) (es[i := ?e]) ?ps"
        using inv(6) by (rule list_all2_update_cong) (simp add: notin)
      then have "list_all2 (in_flight xs oid) es ?ps" by simp
      with st inv show ?thesis by (intro exI[of _ d] exI[of _ xs] exI[of _ ?ps]) simp
    qed
  next
    case (Update i)
    show ?thesis
    proof (cases "i < length ps \<and> (\<exists>oi h e. ps ! i = Some (Decided oi h e))")
      case False
      then have "step mk ?rqs (?st, ps) ev = (?st, ps)"
        using Update by (auto split: option.splits pending.splits)
      then show ?thesis by (rule same)
    next
      case True
      then obtain oi h e' where i: "i < length es" and p: "ps ! i = Some (Decided oi h e')"
        using len by auto
      let ?e = "es ! i"
      have e: "truthy ?e" "is_primitive ?e" using es(2) i by simp_all
      have "in_flight xs oid ?e (ps ! i)" using inv(6) i by (simp add: list_all2_conv_all_nth)
      then have dec: "oi = oid" "h = False" "e' = ?e" and notin: "?e \<notin> set xs"
        using p by simp_all
      from toggle_update_like[OF inv(2,3) e(2,1) notin] obtain d' where
        d': "apply_upds (toggle_update False ?e) d = Some d'" "d' \<noteq> d"
        "map_of d' = (map_of d)(''likeCount'' \<mapsto> JNum (int (length xs) + 1),
            ''likedBy'' \<mapsto> JArr (xs @ [?e]))"
        by (elim exE conjE)
      let ?r = "(200, LikeStatus ''Toggle like status successful'' (\<not> False))"
      have wr: "toggle_write ?st oid False ?e = (?r, pre @ d' # post)"
        using pre inv(1) d'(1,2) by (rule toggle_write_changed)
      let ?ps = "ps[i := Some (Respond ?r)]"
      let ?xs = "xs @ [?e]"
      have st: "step mk ?rqs (?st, ps) ev = (pre @ d' # post, ?ps)"
        using Update i len p dec wr by simp
      have f: "id_filter oid d'" using inv(1) id_filter_cong[of d' d oid] d'(3) by simp
      have l: "map_of d' ''likedBy'' = Some (JArr ?xs)" unfolding d'(3) by simp
      have c: "map_of d' ''likeCount'' = Some (JNum (int (length ?xs)))" unfolding d'(3) by simp
      have dx: "distinct ?xs" using inv(4) notin by simp
      have sub: "set ?xs \<subseteq> set es" using inv(5) i by simp
      have "list_all2 (in_flight ?xs oid) es ?ps"
        unfolding list_all2_conv_all_nth
      proof (intro conjI allI impI)
        show "length es = length ?ps" using len by simp
      next
        fix j assume j: "j < length es"
        have old: "in_flight xs oid (es ! j) (ps ! j)"
          using inv(6) j by (simp add: list_all2_conv_all_nth)
        show "in_flight ?xs oid (es ! j) (?ps ! j)"
        proof (cases "j = i")
          case True
          then show ?thesis using i len by simp
        next
          case False
          then have ne: "es ! j \<noteq> ?e" using es(1) i j by (simp add: nth_eq_iff_index_eq)
          have "?ps ! j = ps ! j" using False by simp
          moreover have "in_flight ?xs oid (es ! j) (ps ! j)"
          proof (cases "ps ! j")
            case None
            with old ne show ?thesis by simp
          next
            case (Some q)
            with old ne show ?thesis by (cases q) simp_all
          qed
          ultimately show ?thesis by simp
        qed
      qed
      with st f l c dx sub show ?thesis
        by (intro exI[of _ d'] exI[of _ ?xs] exI[of _ ?ps]) simp
    qed
  qed
qed

lemma distinct_users_fold:
  assumes es: "distinct es" "\<forall>e \<in> set es. truthy e \<and> is_primitive e"
    and oid: "mk aid = Some oid"
    and pre: "\<forall>x \<in> set pre. \<not> id_filter oid x"
    and inv: "id_filter oid d" "map_of d ''likedBy'' = Some (JArr xs)"
      "map_of d ''likeCount'' = Some (JNum (int (length xs)))"
      "distinct xs" "set xs \<subseteq> set es" "list_all2 (in_flight xs oid) es ps"
  shows "\<exists>d' xs' ps'.
      foldl (step mk (map (\<lambda>e. (aid, [(''email'', e)])) es)) (pre @ d # post, ps) evs =
        (pre @ d' # post, ps') \<and>
      id_filter oid d' \<and> map_of d' ''likedBy'' = Some (JArr xs') \<and>
      map_of d' ''likeCount'' = Some (JNum (int (length xs'))) \<and>
      distinct xs' \<and> set xs' \<subseteq> set es \<and> list_all2 (in_flight xs' oid) es ps'"
  using inv
proof (induction evs arbitrary: d xs ps)
  case Nil
  then show ?case by (intro exI[of _ d] exI[of _ xs] exI[of _ ps]) simp
next
  case (Cons ev evs)
  from distinct_users_step[where mk=mk and aid=aid and post=post and ev=ev,
      OF es oid pre Cons.prems] obtain d1 xs1 ps1 where
    s: "step mk (map (\<lambda>e. (aid, [(''email'', e)])) es) (pre @ d # post, ps) ev =
        (pre @ d1 # post, ps1)" and
    i: "id_filter oid d1" "map_of d1 ''likedBy'' = Some (JArr xs1)"
      "map_of d1 ''likeCount'' = Some (JNum (int (length xs1)))"
      "distinct xs1" "set xs1 \<subseteq> set es" "list_all2 (in_flight xs1 oid) es ps1"
    by (elim exE conjE)
  from Cons.IH[OF i] show ?case unfolding foldl_Cons s .
qed

lemma answered_in_flight:
  assumes "list_all2 (in_flight xs oid) es ps" "all_answered ps"
  shows "set es \<subseteq> set xs"
proof
  fix e assume "e \<in> set es"
  then obtain i where i: "i < length es" "es ! i = e" by (auto simp: in_set_conv_nth)
  with assms(1) have f: "in_flight xs oid e (ps ! i)" and l: "i < length ps"
    by (auto simp: list_all2_conv_all_nth)
  from assms(2) l have "case ps ! i of Some (Respond r) \<Rightarrow> True | _ \<Rightarrow> False"
    by (simp add: all_answered_def list_all_length)
  then obtain r where "ps ! i = Some (Respond r)"
    by (auto split: option.splits pending.splits)
  with f show "e \<in> set xs" by simp
qed

lemma distinct_users_no_lost_update:
  assumes es: "distinct es" "\<forall>e \<in> set es. truthy e \<and> is_primitive e"
    and oid: "mk aid = Some oid"
    and pre: "\<forall>x \<in> set pre. \<not> id_filter oid x"
    and d: "id_filter oid d" "map_of d ''likedBy'' = Some (JArr [])"
      "map_of d ''likeCount'' = Some (JNum 0)"
    and run: "interleaved mk (pre @ d # post) (map (\<lambda>e. (aid, [(''email'', e)])) es) evs = (st', ps)"
    and fin: "all_answered ps"
  shows "\<exists>d' xs. st' = pre @ d' # post \<and> map_of d' ''likedBy'' = Some (JArr xs) \<and>
      map_of d' ''likeCount'' = Some (JNum (int (length es))) \<and>
      length xs = length es \<and> set xs = set es"
proof -
  let ?ps0 = "replicate (length es) (None :: pending option)"
  have i0: "list_all2 (in_flight [] oid) es ?ps0"
    by (simp add: list_all2_conv_all_nth)
  have c0: "map_of d ''likeCount'' = Some (JNum (int (length ([] :: jsval list))))"
    using d(3) by simp
  have d0: "distinct ([] :: jsval list)" "set ([] :: jsval list) \<subseteq> set es" by simp_all
  from distinct_users_fold[where mk=mk and aid=aid and post=post and evs=evs,
      OF es oid pre d(1,2) c0 d0 i0] obtain d' xs' ps' where
    f: "foldl (step mk (map (\<lambda>e. (aid, [(''email'', e)])) es)) (pre @ d # post, ?ps0) evs =
        (pre @ d' # post, ps')" and
    i: "map_of d' ''likedBy'' = Some (JArr xs')"
      "map_of d' ''likeCount'' = Some (JNum (int (length xs')))"
      "distinct xs'" "set xs' \<subseteq> set es" "list_all2 (in_flight xs' oid) es ps'"
    by (elim exE conjE)
  from run f have eq: "st' = pre @ d' # post" "ps = ps'"
    by (simp_all add: interleaved_def)
  from answered_in_flight[OF i(5)] fin eq(2) have "set es \<subseteq> set xs'" by simp
  with i(4) have s: "set xs' = set es" by auto
  have "length xs' = card (set xs')" using i(3) by (simp add: distinct_card)
  also have "\<dots> = length es" unfolding s using es(1) by (simp add: distinct_card)
  finally have l: "length xs' = length es" .
  show ?thesis using eq(1) i(1,2) l s
    by (intro exI[of _ d'] exI[of _ xs']) simp
qed

text \<open>
  Claim C2. Its first half holds of the handler: the lemma \<open>distinct_users_no_lost_update\<close>
  above. Its second half does not. Two requests of the same user for a fresh artifact, each
  reading before either writes: both find the email absent, both send \<^verbatim>\<open>$inc\<close> by 1 with
  \<^verbatim>\<open>$addToSet\<close>, both are answered 200 with \<open>liked\<close> true, and the artifact ends with
  \<open>likeCount\<close> 2 and one entry in \<open>likedBy\<close>.
\<close>

theorem same_user_race:
  "interleaved oid_hex24 [urn] same_user_twice both_read_first =
     ([[(''_id'', JOid urn_id), (''name'', JStr ''Urn''),
        (''addedBy'', JObj [(''email'', JStr ''u@x.com'')]),
        (''likedBy'', JArr [JStr ''u@x.com'']), (''likeCount'', JNum 2)]],
      [Some (Respond (200, LikeStatus ''Toggle like status successful'' True)),
       Some (Respond (200, LikeStatus ''Toggle like status successful'' True))])"
  by code_simp

section \<open>Collections the service builds\<close>













section \<open>JSON request bodies\<close>

lemma bson_json: "json v \<Longrightarrow> bson v = v"
proof (induction v)
  case (JArr xs)
  then have "map bson xs = xs" by (simp add: map_idI)
  then show ?case by simp
next
  case (JObj fs)
  have "map (map_prod id bson) fs = fs"
  proof (rule map_idI)
    fix p assume p: "p \<in> set fs"
    obtain k v where kv: "p = (k, v)" by (cases p)
    with p JObj.prems have "json v" by auto
    moreover from p kv have "v \<in> Basic_BNFs.snds p" by simp
    ultimately have "bson v = v" using JObj.IH p by blast
    with kv show "map_prod id bson p = p" by simp
  qed
  then show ?case by simp
qed simp_all

lemma json_body_value:
  assumes "json_body body" "map_of body k = Some v"
  shows "json v"
proof -
  from assms(2) have "(k, v) \<in> set body" by (rule map_of_SomeD)
  with assms(1) have "json (snd (k, v))" unfolding json_body_def by blast
  then show ?thesis by simp
qed

lemma bson_get_prop:
  "json_body body \<Longrightarrow>
   bson (get_prop body k) = (case map_of body k of None \<Rightarrow> JNull | Some v \<Rightarrow> v)"
  by (auto simp: get_prop_def bson_json json_body_value split: option.splits)

section \<open>What an update writes\<close>

lemma descriptive_fields_set:
  "set descriptive_fields =
     {''name'', ''image'', ''type'', ''description'', ''createdAt'', ''discoveredAt'',
      ''discoveredBy'', ''location''}"
  by (simp add: descriptive_fields_def)

text \<open>
  Claim C8. An update request changes no document when its id names none. When it names an
  artifact, only that artifact can change, and in it \<open>likedBy\<close>, \<open>likeCount\<close> and \<open>addedBy\<close>,
  and every field other than \<open>name\<close>, \<open>image\<close>, \<open>type\<close>, \<open>description\<close>, \<open>createdAt\<close>,
  \<open>discoveredAt\<close>, \<open>discoveredBy\<close> and \<open>location\<close>, are as before, while each of these eight
  holds the value the JSON body of the request has for it, and \<^verbatim>\<open>null\<close>, as the store keeps
  \<^verbatim>\<open>undefined\<close>, when the body has no such field.
\<close>

theorem update_frame:
  "(lookup_artifact mk st aid = None \<longrightarrow> snd (artifact_update mk st aid body) = st) \<and>
   (lookup_artifact mk st aid = Some d \<longrightarrow>
      (\<exists>pre post d'. st = pre @ d # post \<and>
         snd (artifact_update mk st aid body) = pre @ d' # post \<and>
         map_of d' ''likedBy'' = map_of d ''likedBy'' \<and>
         map_of d' ''likeCount'' = map_of d ''likeCount'' \<and>
         map_of d' ''addedBy'' = map_of d ''addedBy'' \<and>
         (\<forall>k. k \<notin> {''name'', ''image'', ''type'', ''description'', ''createdAt'',
                  ''discoveredAt'', ''discoveredBy'', ''location''} \<longrightarrow>
              map_of d' k = map_of d k) \<and>
         (json_body body \<longrightarrow>
            (\<forall>k \<in> {''name'', ''image'', ''type'', ''description'', ''createdAt'',
                    ''discoveredAt'', ''discoveredBy'', ''location''}.
               map_of d' k = Some (case map_of body k of None \<Rightarrow> JNull | Some v \<Rightarrow> v)))))"
proof (intro conjI impI)
  assume "lookup_artifact mk st aid = None"
  then show "snd (artifact_update mk st aid body) = st" by (rule artifact_update_miss)
next
  let ?F = "{''name'', ''image'', ''type'', ''description'', ''createdAt'',
             ''discoveredAt'', ''discoveredBy'', ''location''}"
  assume "lookup_artifact mk st aid = Some d"
  from artifact_update_found[OF this, of body] obtain pre post d' where
    r: "st = pre @ d # post"
    "artifact_update mk st aid body =
        (if d' = d then (404, Message ''Artifact not found or no changes made'')
         else (200, Message ''Artifact updated successfully''), pre @ d' # post)"
    "\<forall>k. map_of d' k =
           (if k \<in> set descriptive_fields then Some (bson (get_prop body k)) else map_of d k)"
    by (elim exE conjE)
  note r3 = r(3)[unfolded descriptive_fields_set]
  have s: "snd (artifact_update mk st aid body) = pre @ d' # post" using r(2) by simp
  have a: "map_of d' ''likedBy'' = map_of d ''likedBy''"
    "map_of d' ''likeCount'' = map_of d ''likeCount''"
    "map_of d' ''addedBy'' = map_of d ''addedBy''"
    using r3 by simp_all
  have b: "\<forall>k. k \<notin> ?F \<longrightarrow> map_of d' k = map_of d k"
    using r3 by simp
  have c: "json_body body \<longrightarrow>
      (\<forall>k \<in> ?F. map_of d' k = Some (case map_of body k of None \<Rightarrow> JNull | Some v \<Rightarrow> v))"
  proof (intro impI ballI)
    fix k assume j: "json_body body" and k: "k \<in> ?F"
    from r3 k have "map_of d' k = Some (bson (get_prop body k))" by simp
    then show "map_of d' k = Some (case map_of body k of None \<Rightarrow> JNull | Some v \<Rightarrow> v)"
      by (simp add: bson_get_prop[OF j])
  qed
  show "\<exists>pre post d'. st = pre @ d # post \<and>
         snd (artifact_update mk st aid body) = pre @ d' # post \<and>
         map_of d' ''likedBy'' = map_of d ''likedBy'' \<and>
         map_of d' ''likeCount'' = map_of d ''likeCount'' \<and>
         map_of d' ''addedBy'' = map_of d ''addedBy'' \<and>
         (\<forall>k. k \<notin> ?F \<longrightarrow> map_of d' k = map_of d k) \<and>
         (json_body body \<longrightarrow>
            (\<forall>k \<in> ?F. map_of d' k = Some (case map_of body k of None \<Rightarrow> JNull | Some v \<Rightarrow> v)))"
    by (intro exI[of _ pre] exI[of _ post] exI[of _ d'] conjI r(1) s a b c)
qed

lemma rename_run:
  "artifact_update oid_hex24 [vase, urn_liked] urn_id rename_request =
     ((200, Message ''Artifact updated successfully''),
      [vase,
       [(''_id'', JOid urn_id), (''name'', JStr ''Funerary urn''),
        (''addedBy'', JObj [(''email'', JStr ''u@x.com'')]),
        (''likedBy'', JArr [JStr ''u@x.com'']), (''likeCount'', JNum 1),
        (''image'', JNull), (''type'', JNull), (''description'', JNull),
        (''createdAt'', JNull), (''discoveredAt'', JNull), (''discoveredBy'', JNull),
        (''location'', JNull)]])"
  by code_simp

theorem update_frame_witness:
  "lookup_artifact oid_hex24 [vase] urn_id = None \<and>
   snd (artifact_update oid_hex24 [vase] urn_id rename_request) = [vase] \<and>
   json_body rename_request \<and>
   lookup_artifact oid_hex24 [vase, urn_liked] urn_id = Some urn_liked \<and>
   (\<exists>pre post d'. [vase, urn_liked] = pre @ urn_liked # post \<and>
         snd (artifact_update oid_hex24 [vase, urn_liked] urn_id rename_request) = pre @ d' # post \<and>
         map_of d' ''likedBy'' = Some (JArr [JStr ''u@x.com'']) \<and>
         map_of d' ''likeCount'' = Some (JNum 1) \<and>
         map_of d' ''addedBy'' = Some (JObj [(''email'', JStr ''u@x.com'')]) \<and>
         map_of d' ''name'' = Some (JStr ''Funerary urn'') \<and>
         map_of d' ''image'' = Some JNull \<and>
         map_of d' ''location'' = Some JNull)"
proof -
  have h1: "lookup_artifact oid_hex24 [vase] urn_id = None" by code_simp
  have h2: "lookup_artifact oid_hex24 [vase, urn_liked] urn_id = Some urn_liked" by code_simp
  have j: "json_body rename_request" by (simp add: json_body_def rename_request_def)
  note r1 = update_frame[where mk=oid_hex24 and st="[vase]" and aid=urn_id
      and body=rename_request, THEN conjunct1, rule_format, OF h1]
  from update_frame[where mk=oid_hex24 and st="[vase, urn_liked]" and aid=urn_id
      and body=rename_request and d=urn_liked, THEN conjunct2, rule_format, OF h2]
  obtain pre post d' where
    r: "[vase, urn_liked] = pre @ urn_liked # post"
      "snd (artifact_update oid_hex24 [vase, urn_liked] urn_id rename_request) = pre @ d' # post"
      "map_of d' ''likedBy'' = map_of urn_liked ''likedBy''"
      "map_of d' ''likeCount'' = map_of urn_liked ''likeCount''"
      "map_of d' ''addedBy'' = map_of urn_liked ''addedBy''"
      "json_body rename_request \<longrightarrow>
         (\<forall>k \<in> {''name'', ''image'', ''type'', ''description'', ''createdAt'',
                 ''discoveredAt'', ''discoveredBy'', ''location''}.
            map_of d' k = Some (case map_of rename_request k of None \<Rightarrow> JNull | Some v \<Rightarrow> v))"
    by (elim exE conjE)
  from r(6) j have v: "map_of d' ''name'' = Some (JStr ''Funerary urn'')"
    "map_of d' ''image'' = Some JNull" "map_of d' ''location'' = Some JNull"
    by (simp_all add: rename_request_def)
  have f: "map_of d' ''likedBy'' = Some (JArr [JStr ''u@x.com''])"
    "map_of d' ''likeCount'' = Some (JNum 1)"
    "map_of d' ''addedBy'' = Some (JObj [(''email'', JStr ''u@x.com'')])"
    using r(3,4,5) by (simp_all add: urn_liked_def)
  have e: "\<exists>pre post d'. [vase, urn_liked] = pre @ urn_liked # post \<and>
         snd (artifact_update oid_hex24 [vase, urn_liked] urn_id rename_request) = pre @ d' # post \<and>
         map_of d' ''likedBy'' = Some (JArr [JStr ''u@x.com'']) \<and>
         map_of d' ''likeCount'' = Some (JNum 1) \<and>
         map_of d' ''addedBy'' = Some (JObj [(''email'', JStr ''u@x.com'')]) \<and>
         map_of d' ''name'' = Some (JStr ''Funerary urn'') \<and>
         map_of d' ''image'' = Some JNull \<and>
         map_of d' ''location'' = Some JNull"
    by (intro exI[of _ pre] exI[of _ post] exI[of _ d'] conjI r(1,2) f v)
  show ?thesis by (intro conjI h1 r1 j h2 e)
qed

section \<open>An array as email\<close>

text \<open>
  Claim C1. The count is to equal the size of \<open>likedBy\<close> after any sequence of successful
  toggles handled one after the other. The handler keeps it so for emails that are primitive
  values (\<open>primitive_emails_keep_count\<close>). It accepts any truthy \<open>email\<close>, though, and for an
  array it does not: \<^verbatim>\<open>includes\<close> compares arrays by identity and never finds the one a
  request brings, while \<^verbatim>\<open>$addToSet\<close> compares by value and adds it once only. Two such
  requests on the fresh urn are both answered 200 with \<open>liked\<close> true, and the urn, whose count
  was right, ends with \<open>likeCount\<close> 2 and one entry in \<open>likedBy\<close>.
\<close>

theorem array_email_count_drift:
  "truthy (get_prop array_like ''email'') \<and>
   count_is_length urn \<and> count_is_card urn \<and>
   like_toggles oid_hex24 [urn] array_like_twice =
     ([(200, LikeStatus ''Toggle like status successful'' True),
       (200, LikeStatus ''Toggle like status successful'' True)],
      [urn_array_twice]) \<and>
   \<not> count_is_length urn_array_twice \<and> \<not> count_is_card urn_array_twice"
proof -
  have a: "truthy (get_prop array_like ''email'')"
    by (simp add: array_like_def get_prop_def)
  have b: "count_is_length urn" "count_is_card urn"
    by (simp_all add: urn_def count_is_length_def count_is_card_def)
  have c: "like_toggles oid_hex24 [urn] array_like_twice =
     ([(200, LikeStatus ''Toggle like status successful'' True),
       (200, LikeStatus ''Toggle like status successful'' True)],
      [urn_array_twice])"
    by code_simp
  have d: "\<not> count_is_length urn_array_twice" "\<not> count_is_card urn_array_twice"
    by (simp_all add: urn_array_twice_def count_is_length_def count_is_card_def)
  show ?thesis by (intro conjI a b c d)
qed

text \<open>
  Claim C3. Toggling twice is to give opposite answers and to bring \<open>likeCount\<close> and the
  email's membership back. The handler does so for emails that are primitive values
  (\<open>primitive_toggle_twice_restores\<close>). For the array email above, by the same comparison by
  identity, both toggles are answered 200 with \<open>liked\<close> true, \<open>likeCount\<close> goes from 0 to 2, and
  the email, not in \<open>likedBy\<close> before, is in it afterwards.
\<close>

theorem array_email_toggle_twice:
  "like_toggle oid_hex24 [urn] urn_id array_like =
     ((200, LikeStatus ''Toggle like status successful'' True), [urn_array_once]) \<and>
   like_toggle oid_hex24 [urn_array_once] urn_id array_like =
     ((200, LikeStatus ''Toggle like status successful'' True), [urn_array_twice]) \<and>
   map_of urn ''likeCount'' = Some (JNum 0) \<and>
   map_of urn_array_twice ''likeCount'' = Some (JNum 2) \<and>
   get_prop array_like ''email'' \<notin> liked_set urn \<and>
   get_prop array_like ''email'' \<in> liked_set urn_array_twice"
proof -
  have a: "like_toggle oid_hex24 [urn] urn_id array_like =
     ((200, LikeStatus ''Toggle like status successful'' True), [urn_array_once])"
    by code_simp
  have b: "like_toggle oid_hex24 [urn_array_once] urn_id array_like =
     ((200, LikeStatus ''Toggle like status successful'' True), [urn_array_twice])"
    by code_simp
  have c: "map_of urn ''likeCount'' = Some (JNum 0)"
    "map_of urn_array_twice ''likeCount'' = Some (JNum 2)"
    by (simp_all add: urn_def urn_array_twice_def)
  have d: "get_prop array_like ''email'' \<notin> liked_set urn"
    "get_prop array_like ''email'' \<in> liked_set urn_array_twice"
    by (simp_all add: liked_set_def get_prop_def urn_def urn_array_twice_def array_like_def)
  show ?thesis by (intro conjI a b c d)
qed

section \<open>The outcomes of a toggle, on a collection the service built\<close>










section \<open>The liked artifacts of a user\<close>






section \<open>What a creation request stores and answers\<close>

text \<open>
  A JSON body is stored as it came: the store's replacement of \<^verbatim>\<open>undefined\<close> finds nothing to
  replace, so the identifier the insert reports is the one the request asks for.
\<close>

lemma request_id_json:
  assumes "json_body artifact"
  shows "insert_id pk artifact = request_id pk artifact"
proof (cases "map_of artifact ''_id''")
  case None
  then show ?thesis by (simp add: insert_id_def request_id_def get_prop_def nullish_def)
next
  case (Some v)
  from json_body_value[OF assms Some] have "bson v = v" by (rule bson_json)
  with Some show ?thesis by (simp add: insert_id_def request_id_def get_prop_def)
qed

lemma map_of_bson_doc_json:
  assumes "json_body d"
  shows "map_of (bson_doc d) k = map_of d k"
proof (cases "map_of d k")
  case None
  then show ?thesis by (simp add: map_of_bson_doc)
next
  case (Some v)
  from json_body_value[OF assms Some] have "bson v = v" by (rule bson_json)
  with Some show ?thesis by (simp add: map_of_bson_doc)
qed

text \<open>
  Claim C4, as amended. A creation request whose \<open>addedBy.email\<close> is absent or falsy (the empty
  string included) is answered 400 with the message
  \<open>User email is required to add an artifact\<close> and the collection is unchanged. A JSON request
  whose \<open>addedBy.email\<close> is truthy, and whose identifier (its own \<open>_id\<close> when it brings one,
  else the driver's new one) is not an array and is not the \<open>_id\<close> of a document already in
  the collection, appends exactly one document to the collection: that document has
  \<open>likeCount\<close> 0, \<open>likedBy\<close> the empty list, \<open>_id\<close> that identifier, and every other field as
  the request gave it, whatever \<open>likeCount\<close> and \<open>likedBy\<close> the request carried. When that
  identifier is truthy the answer is 201 with the message \<open>Artifact added successfully\<close> and
  the identifier.
\<close>

theorem create_outcomes:
  "(\<not> truthy (opt_member (get_prop artifact ''addedBy'') ''email'') \<longrightarrow>
      history_post st pk artifact =
        ((400, Message ''User email is required to add an artifact''), st)) \<and>
   (json_body artifact \<and>
    truthy (opt_member (get_prop artifact ''addedBy'') ''email'') \<and>
    \<not> is_array (request_id pk artifact) \<and>
    (\<forall>d \<in> set st. map_of d ''_id'' \<noteq> Some (request_id pk artifact)) \<longrightarrow>
      (\<exists>doc. snd (history_post st pk artifact) = st @ [doc] \<and>
         map_of doc ''likeCount'' = Some (JNum 0) \<and>
         map_of doc ''likedBy'' = Some (JArr []) \<and>
         map_of doc ''_id'' = Some (request_id pk artifact) \<and>
         (\<forall>k. k \<noteq> ''likeCount'' \<and> k \<noteq> ''likedBy'' \<and> k \<noteq> ''_id'' \<longrightarrow>
              map_of doc k = map_of artifact k) \<and>
         (truthy (request_id pk artifact) \<longrightarrow>
            fst (history_post st pk artifact) =
              (201, Inserted ''Artifact added successfully'' (request_id pk artifact)))))"
proof (intro conjI impI)
  assume "\<not> truthy (opt_member (get_prop artifact ''addedBy'') ''email'')"
  then show "history_post st pk artifact =
        ((400, Message ''User email is required to add an artifact''), st)"
    by (simp add: history_post_def)
next
  let ?a2 = "set_prop (set_prop artifact ''likedBy'' (JArr [])) ''likeCount'' (JNum 0)"
  let ?doc = "bson_doc (if nullish (get_prop ?a2 ''_id'') then set_prop ?a2 ''_id'' (JOid pk) else ?a2)"
  let ?i = "request_id pk artifact"
  assume a: "json_body artifact \<and>
    truthy (opt_member (get_prop artifact ''addedBy'') ''email'') \<and>
    \<not> is_array ?i \<and> (\<forall>d \<in> set st. map_of d ''_id'' \<noteq> Some ?i)"
  then have j: "json_body artifact" by simp
  have ii: "insert_id pk artifact = ?i" using j by (rule request_id_json)
  have i2: "insert_id pk ?a2 = ?i" by (simp add: insert_id_set_prop ii)
  have ins: "insertOne st pk ?a2 = Some (?i, st @ [?doc])"
    using insertOne_ok[of pk ?a2 st] a unfolding i2 by simp
  have post: "history_post st pk artifact =
      (if truthy ?i then (201, Inserted ''Artifact added successfully'' ?i)
       else (400, Message ''Failed to add artifact''), st @ [?doc])"
    using a ins by (simp add: history_post_def)
  have s: "snd (history_post st pk artifact) = st @ [?doc]" using post by simp
  have f: "truthy ?i \<longrightarrow>
      fst (history_post st pk artifact) = (201, Inserted ''Artifact added successfully'' ?i)"
    using post by simp
  have idn: "map_of ?doc ''_id'' = Some ?i"
  proof -
    have "get_prop ?doc ''_id'' = ?i" using insertOne_id[of ?a2 pk] i2 by simp
    moreover have "?i \<noteq> JUndefined"
      unfolding ii[symmetric] by (simp add: insert_id_def bson_not_undefined)
    ultimately show ?thesis by (auto simp: get_prop_def split: option.splits)
  qed
  have c: "map_of ?doc ''likeCount'' = Some (JNum 0)"
    by (simp add: map_of_bson_doc map_of_set_prop)
  have l: "map_of ?doc ''likedBy'' = Some (JArr [])"
    by (simp add: map_of_bson_doc map_of_set_prop)
  have o: "\<forall>k. k \<noteq> ''likeCount'' \<and> k \<noteq> ''likedBy'' \<and> k \<noteq> ''_id'' \<longrightarrow>
              map_of ?doc k = map_of artifact k"
  proof (intro allI impI)
    fix k assume k: "k \<noteq> ''likeCount'' \<and> k \<noteq> ''likedBy'' \<and> k \<noteq> ''_id''"
    then have "map_of ?doc k = map_option bson (map_of artifact k)"
      by (simp add: map_of_bson_doc map_of_set_prop)
    also have "\<dots> = map_of (bson_doc artifact) k" by (simp add: map_of_bson_doc)
    also have "\<dots> = map_of artifact k" using j by (rule map_of_bson_doc_json)
    finally show "map_of ?doc k = map_of artifact k" .
  qed
  show "\<exists>doc. snd (history_post st pk artifact) = st @ [doc] \<and>
         map_of doc ''likeCount'' = Some (JNum 0) \<and>
         map_of doc ''likedBy'' = Some (JArr []) \<and>
         map_of doc ''_id'' = Some ?i \<and>
         (\<forall>k. k \<noteq> ''likeCount'' \<and> k \<noteq> ''likedBy'' \<and> k \<noteq> ''_id'' \<longrightarrow>
              map_of doc k = map_of artifact k) \<and>
         (truthy ?i \<longrightarrow>
            fst (history_post st pk artifact) =
              (201, Inserted ''Artifact added successfully'' ?i))"
    by (intro exI[of _ ?doc] conjI s c l idn o f)
qed

text \<open>
  The claim C4 as written promises 201 and a stored document whenever \<open>addedBy.email\<close> is
  present. With the empty string as email the answer is 400. A request that brings the string
  \<open>amphora-1\<close> as \<open>_id\<close> is answered 201 the first time and 500 the second time, the collection
  then unchanged; an array as \<open>_id\<close> is answered 500 with nothing stored; and the number 0 as
  \<open>_id\<close> is stored, with \<open>likeCount\<close> 0 and \<open>likedBy\<close> empty, but answered 400 with the message
  \<open>Failed to add artifact\<close>.
\<close>

theorem create_counterexample:
  "opt_member (get_prop empty_email_request ''addedBy'') ''email'' = JStr '''' \<and>
   history_post [made_urn] new_id empty_email_request =
     ((400, Message ''User email is required to add an artifact''), [made_urn]) \<and>
   opt_member (get_prop keyed_request ''addedBy'') ''email'' = JStr ''a@x.com'' \<and>
   history_post [] urn_id keyed_request =
     ((201, Inserted ''Artifact added successfully'' (JStr ''amphora-1'')), [keyed_amphora]) \<and>
   history_post [keyed_amphora] new_id keyed_request =
     ((500, Failure ''Server error''), [keyed_amphora]) \<and>
   history_post [] new_id array_id_request = ((500, Failure ''Server error''), []) \<and>
   history_post [] new_id zero_request =
     ((400, Message ''Failed to add artifact''), [zero_amphora])"
  by code_simp

text \<open>
  The theorem at work: a request without \<open>addedBy\<close> is answered 400, and the amphora request on
  a collection holding the urn is stored under the driver's new identifier and answered 201.
\<close>

theorem create_outcomes_witness:
  "\<not> truthy (opt_member (get_prop [(''name'', JStr ''Amphora'')] ''addedBy'') ''email'') \<and>
   history_post [made_urn] new_id [(''name'', JStr ''Amphora'')] =
     ((400, Message ''User email is required to add an artifact''), [made_urn]) \<and>
   json_body amphora_request \<and>
   truthy (opt_member (get_prop amphora_request ''addedBy'') ''email'') \<and>
   request_id new_id amphora_request = JOid new_id \<and>
   \<not> is_array (request_id new_id amphora_request) \<and>
   list_all (\<lambda>d. map_of d ''_id'' \<noteq> Some (request_id new_id amphora_request)) [made_urn] \<and>
   truthy (request_id new_id amphora_request) \<and>
   (\<exists>doc. snd (history_post [made_urn] new_id amphora_request) = [made_urn] @ [doc] \<and>
      map_of doc ''likeCount'' = Some (JNum 0) \<and>
      map_of doc ''likedBy'' = Some (JArr []) \<and>
      map_of doc ''_id'' = Some (JOid new_id) \<and>
      map_of doc ''name'' = Some (JStr ''Amphora'') \<and>
      map_of doc ''addedBy'' = Some (JObj [(''email'', JStr ''a@x.com'')])) \<and>
   fst (history_post [made_urn] new_id amphora_request) =
     (201, Inserted ''Artifact added successfully'' (JOid new_id))"
proof -
  have h1: "\<not> truthy (opt_member (get_prop [(''name'', JStr ''Amphora'')] ''addedBy'') ''email'')"
    by (simp add: get_prop_def opt_member_def)
  have j: "json_body amphora_request"
    by (simp add: json_body_def amphora_request_def)
  have h2: "truthy (opt_member (get_prop amphora_request ''addedBy'') ''email'')"
    by (simp add: amphora_request_def get_prop_def opt_member_def)
  have i: "request_id new_id amphora_request = JOid new_id"
    by (simp add: request_id_def amphora_request_def get_prop_def nullish_def)
  have h3: "\<not> is_array (request_id new_id amphora_request)"
    by (simp add: i is_array_def)
  have h4: "\<forall>d \<in> set [made_urn]. map_of d ''_id'' \<noteq> Some (request_id new_id amphora_request)"
    unfolding i by (simp add: made_urn_def urn_id_def new_id_def)
  have h4': "list_all (\<lambda>d. map_of d ''_id'' \<noteq> Some (request_id new_id amphora_request)) [made_urn]"
    using h4 by (simp add: list_all_iff)
  have h5: "truthy (request_id new_id amphora_request)" by (simp add: i)
  note r1 = create_outcomes[where artifact="[(''name'', JStr ''Amphora'')]" and st="[made_urn]"
      and pk=new_id, THEN conjunct1, rule_format, OF h1]
  from create_outcomes[where artifact=amphora_request and st="[made_urn]" and pk=new_id,
      THEN conjunct2, rule_format, OF conjI[OF j conjI[OF h2 conjI[OF h3 h4]]]]
  obtain doc where
    r: "snd (history_post [made_urn] new_id amphora_request) = [made_urn] @ [doc]"
      "map_of doc ''likeCount'' = Some (JNum 0)"
      "map_of doc ''likedBy'' = Some (JArr [])"
      "map_of doc ''_id'' = Some (request_id new_id amphora_request)"
      "\<forall>k. k \<noteq> ''likeCount'' \<and> k \<noteq> ''likedBy'' \<and> k \<noteq> ''_id'' \<longrightarrow>
           map_of doc k = map_of amphora_request k"
      "truthy (request_id new_id amphora_request) \<longrightarrow>
         fst (history_post [made_urn] new_id amphora_request) =
           (201, Inserted ''Artifact added successfully'' (request_id new_id amphora_request))"
    by (elim exE conjE)
  have n: "map_of doc ''name'' = Some (JStr ''Amphora'')"
    "map_of doc ''addedBy'' = Some (JObj [(''email'', JStr ''a@x.com'')])"
    using r(5) by (simp_all add: amphora_request_def)
  have idn: "map_of doc ''_id'' = Some (JOid new_id)" using r(4) by (simp add: i)
  have e: "\<exists>doc. snd (history_post [made_urn] new_id amphora_request) = [made_urn] @ [doc] \<and>
      map_of doc ''likeCount'' = Some (JNum 0) \<and>
      map_of doc ''likedBy'' = Some (JArr []) \<and>
      map_of doc ''_id'' = Some (JOid new_id) \<and>
      map_of doc ''name'' = Some (JStr ''Amphora'') \<and>
      map_of doc ''addedBy'' = Some (JObj [(''email'', JStr ''a@x.com'')])"
    by (intro exI[of _ doc] conjI r(1,2,3) idn n)
  have f: "fst (history_post [made_urn] new_id amphora_request) =
     (201, Inserted ''Artifact added successfully'' (JOid new_id))"
    using r(6) h5 by (simp add: i)
  show ?thesis by (intro conjI h1 r1 j h2 i h3 h4' h5 e f)
qed

end
